(* ===== verification/Mesh_Prelude.thy ===== *)
theory Mesh_Prelude
  imports Main "HOL-Library.AList" "HOL-Library.Char_ord" "HOL-Library.List_Lexorder"
    "HOL-Library.Multiset" "HOL-Library.Word"
begin

text \<open>
  Shared material of the development: the fact collections, Go's data types as the model
  uses them (maps, times and durations, fixed-width integers, decimal printing) and the
  generic lemmas on sorted lists and association lists that the component theories rest on.

  A Go string is a byte sequence compared bytewise; it is a \<^typ>\<open>string\<close> here, with
  the lexicographic order of \<open>List_Lexorder\<close> over the byte order of \<open>Char_ord\<close>.
\<close>

named_theorems go_simps \<open>evaluation rules of the Go operations\<close>
named_theorems inv_intros \<open>operations preserve the invariants\<close>

section \<open>Go maps\<close>

text \<open>
  A Go map is an association list with distinct keys. The order of the list stands for the
  order in which one \<open>range\<close> statement happens to visit the entries, which Go leaves
  open; \<open>go_equiv\<close> relates two maps with the same contents, and an operation is
  independent of the visiting order when it maps equivalent maps to equal results.
\<close>

type_synonym ('k, 'v) gomap = "('k \<times> 'v) list"

definition go_ok :: "('k, 'v) gomap \<Rightarrow> bool" where
  "go_ok m \<longleftrightarrow> distinct (map fst m)"

definition go_get :: "('k, 'v) gomap \<Rightarrow> 'k \<Rightarrow> 'v option" where
  "go_get m k = map_of m k"

definition go_set :: "'k \<Rightarrow> 'v \<Rightarrow> ('k, 'v) gomap \<Rightarrow> ('k, 'v) gomap" where
  "go_set k v m = AList.update k v m"

definition go_delete :: "'k \<Rightarrow> ('k, 'v) gomap \<Rightarrow> ('k, 'v) gomap" where
  "go_delete k m = AList.delete k m"

definition go_equiv :: "('k, 'v) gomap \<Rightarrow> ('k, 'v) gomap \<Rightarrow> bool" where
  "go_equiv m m' \<longleftrightarrow> go_ok m \<and> go_ok m' \<and> go_get m = go_get m'"

section \<open>Times, durations and fixed-width integers\<close>

text \<open>
  A \<open>time.Time\<close> is its reading in nanoseconds and a \<open>time.Duration\<close> its signed
  64-bit count of nanoseconds, both as \<^typ>\<open>int\<close>; arithmetic that can leave the range
  is written out: \<open>Time.Sub\<close> saturates, \<open>int64\<close> addition wraps.
\<close>

type_synonym time = int
type_synonym duration = int
type_synonym uint32 = "32 word"
type_synonym uint64 = "64 word"

definition Second :: duration where "Second = 1000000000"
definition Millisecond :: duration where "Millisecond = 1000000"
definition maxDuration :: duration where "maxDuration = 2 ^ 63 - 1"
definition minDuration :: duration where "minDuration = - (2 ^ 63)"

definition time_Sub :: "time \<Rightarrow> time \<Rightarrow> duration" where
  "time_Sub t u = max minDuration (min maxDuration (t - u))"

definition int64 :: "int \<Rightarrow> int" where
  "int64 x = sint (word_of_int x :: 64 word)"

lemmas duration_defs = Second_def Millisecond_def maxDuration_def minDuration_def

section \<open>Decimal printing\<close>

text \<open>\<open>strconv\<close> and \<open>fmt\<close> in base ten: \<open>%d\<close> on an unsigned value.\<close>

definition digit_char :: "nat \<Rightarrow> char" where
  "digit_char d = char_of (48 + d)"

fun show_nat :: "nat \<Rightarrow> string" where
  "show_nat n =
     (if n < 10 then [digit_char n] else show_nat (n div 10) @ [digit_char (n mod 10)])"

declare show_nat.simps [simp del]

definition digit_val :: "char \<Rightarrow> nat" where
  "digit_val c = of_char c - 48"

definition read_nat :: "string \<Rightarrow> nat" where
  "read_nat s = foldl (\<lambda>n c. 10 * n + digit_val c) 0 s"

section \<open>Lemmas\<close>

subsection \<open>Association lists as maps\<close>

lemma go_ok_Nil [simp]: "go_ok []"
  by (simp add: go_ok_def)

lemma go_ok_Cons [simp]: "go_ok ((k, v) # m) \<longleftrightarrow> k \<notin> fst ` set m \<and> go_ok m"
  by (simp add: go_ok_def)

lemma go_get_Nil [simp]: "go_get [] k = None"
  by (simp add: go_get_def)

lemma go_get_Cons [simp]: "go_get ((a, v) # m) k = (if k = a then Some v else go_get m k)"
  by (simp add: go_get_def)

lemma go_get_set [simp]: "go_get (go_set k v m) j = (if j = k then Some v else go_get m j)"
  by (simp add: go_get_def go_set_def update_conv')

lemma go_get_delete [simp]: "go_get (go_delete k m) j = (if j = k then None else go_get m j)"
  by (simp add: go_get_def go_delete_def delete_conv')

lemma go_ok_set [simp, intro]: "go_ok m \<Longrightarrow> go_ok (go_set k v m)"
  by (simp add: go_ok_def go_set_def distinct_update)

lemma go_ok_delete [simp, intro]: "go_ok m \<Longrightarrow> go_ok (go_delete k m)"
  by (simp add: go_ok_def go_delete_def distinct_delete)

lemma go_get_iff: "go_ok m \<Longrightarrow> go_get m k = Some v \<longleftrightarrow> (k, v) \<in> set m"
  by (simp add: go_ok_def go_get_def)

lemma go_get_mem: "go_get m k = Some v \<Longrightarrow> (k, v) \<in> set m"
  by (simp add: go_get_def map_of_SomeD)

lemma go_get_None_iff: "go_get m k = None \<longleftrightarrow> k \<notin> fst ` set m"
  by (simp add: go_get_def map_of_eq_None_iff)

lemma set_go_set:
  "go_ok m \<Longrightarrow> set (go_set k v m) = insert (k, v) {p \<in> set m. fst p \<noteq> k}"
proof -
  assume ok: "go_ok m"
  have "p \<in> set (go_set k v m) \<longleftrightarrow> p \<in> insert (k, v) {p \<in> set m. fst p \<noteq> k}" for p
    using go_get_iff [OF go_ok_set [OF ok], of k v "fst p" "snd p"]
      go_get_iff [OF ok, of "fst p" "snd p"] by (cases p) (auto split: if_splits)
  then show ?thesis by blast
qed

lemma set_go_delete: "set (go_delete k m) = {p \<in> set m. fst p \<noteq> k}"
  by (auto simp: go_delete_def AList.delete_eq)

lemma go_equiv_refl: "go_ok m \<Longrightarrow> go_equiv m m"
  by (simp add: go_equiv_def)

lemma go_equiv_sym: "go_equiv m m' \<Longrightarrow> go_equiv m' m"
  by (simp add: go_equiv_def)

lemma go_equiv_set_eq: "go_equiv m m' \<Longrightarrow> set m = set m'"
proof -
  assume "go_equiv m m'"
  then have "(k, v) \<in> set m \<longleftrightarrow> (k, v) \<in> set m'" for k v
    using go_get_iff [of m k v] go_get_iff [of m' k v] by (simp add: go_equiv_def)
  then show ?thesis by auto
qed

lemma go_ok_distinct: "go_ok m \<Longrightarrow> distinct m"
  by (simp add: go_ok_def distinct_map)

lemma go_equiv_mset: "go_equiv m m' \<Longrightarrow> mset m = mset m'"
  using go_equiv_set_eq [of m m'] set_eq_iff_mset_eq_distinct [of m m']
  by (simp add: go_equiv_def go_ok_distinct)

lemma go_equiv_length: "go_equiv m m' \<Longrightarrow> length m = length m'"
  using mset_eq_length go_equiv_mset by blast

subsection \<open>Sorting\<close>

text \<open>
  A list sorted by a key that tells its elements apart is determined by its elements: this
  is why the visiting order of a Go map does not show after a \<open>sort\<close>.
\<close>

lemma sort_key_perm:
  assumes "mset xs = mset ys" and "inj_on f (set xs)" and "distinct xs"
  shows "sort_key f xs = sort_key f ys"
proof -
  have "distinct (map f xs)" and "distinct (map f ys)"
    using assms by (auto simp: distinct_map dest: mset_eq_setD mset_eq_imp_distinct_iff)
  then show ?thesis
    using assms
    by (intro map_sorted_distinct_set_unique [of f]) (auto simp: distinct_map dest: mset_eq_setD)
qed

lemma sorted_distinct_sort [simp]: "distinct xs \<Longrightarrow> sorted_wrt (<) (sort xs)"
  by (simp add: strict_sorted_iff)

lemma distinct_map_sort_key [simp]: "distinct (map f (sort_key g xs)) = distinct (map f xs)"
  by (simp add: distinct_map)

lemma sort_key_Nil_iff [simp]: "sort_key f xs = [] \<longleftrightarrow> xs = []"
  by (metis length_0_conv length_sort)

text \<open>Two strictly sorted listings of the same elements are equal.\<close>

lemma strict_key_unique:
  fixes f :: "'a \<Rightarrow> 'b :: linorder"
  assumes "sorted_wrt (<) (map f xs)" and "sorted_wrt (<) (map f ys)"
    and "set xs = set ys" and "inj_on f (set xs)"
  shows "xs = ys"
  by (rule map_sorted_distinct_set_unique [of f]) (use assms in \<open>simp_all add: strict_sorted_iff\<close>)

subsection \<open>Separated strings\<close>

lemma append_sep_inject:
  "x \<notin> set as \<Longrightarrow> x \<notin> set bs \<Longrightarrow> as @ x # cs = bs @ x # ds \<longleftrightarrow> as = bs \<and> cs = ds"
proof (induction as arbitrary: bs)
  case Nil
  then show ?case by (cases bs) auto
next
  case (Cons a as)
  then show ?case by (cases bs) auto
qed

lemma take_drop_prefix: "take (length p) k = p \<longleftrightarrow> (\<exists>s. k = p @ s)"
  by (metis append_eq_conv_conj append_take_drop_id)

lemma prefix_restore: "take (length p) k = p \<Longrightarrow> p @ drop (length p) k = k"
  by (metis append_take_drop_id)

subsection \<open>Decimal strings\<close>

lemma digit_val_char [simp]: "d < 10 \<Longrightarrow> digit_val (digit_char d) = d"
  by (simp add: digit_val_def digit_char_def)

lemma read_nat_snoc: "read_nat (s @ [c]) = 10 * read_nat s + digit_val c"
  by (simp add: read_nat_def)

lemma read_show_nat [simp]: "read_nat (show_nat n) = n"
proof (induction n rule: show_nat.induct)
  case (1 n)
  show ?case
  proof (cases "n < 10")
    case True
    then show ?thesis by (simp add: show_nat.simps [of n] read_nat_def)
  next
    case False
    with 1 have "read_nat (show_nat (n div 10)) = n div 10" by simp
    with False show ?thesis by (simp add: show_nat.simps [of n] read_nat_snoc)
  qed
qed

lemma show_nat_inject [simp]: "show_nat m = show_nat n \<longleftrightarrow> m = n"
  by (metis read_show_nat)

subsection \<open>Durations and 64-bit integers\<close>

lemma int64_id: "- (2 ^ 63) \<le> x \<Longrightarrow> x < 2 ^ 63 \<Longrightarrow> int64 x = x"
  by (simp add: int64_def sint_sbintrunc' signed_take_bit_int_eq_self)

lemma int64_fits: "- 9223372036854775808 \<le> x \<Longrightarrow> x < 9223372036854775808 \<Longrightarrow> int64 x = x"
  by (rule int64_id) simp_all

lemma time_Sub_gt:
  "minDuration \<le> d \<Longrightarrow> d < maxDuration \<Longrightarrow> time_Sub t u > d \<longleftrightarrow> t - u > d"
  by (auto simp: time_Sub_def max_def min_def)

lemma time_Sub_mono: "t \<le> t' \<Longrightarrow> time_Sub t u \<le> time_Sub t' u"
  by (auto simp: time_Sub_def max_def min_def)

lemma time_Sub_self [simp]: "time_Sub t t = 0"
  by (simp add: time_Sub_def duration_defs)

section \<open>The keyed-store contract\<close>

text \<open>
  What the components rely on when they keep their state in a mutex-guarded Go map: a
  lookup sees the last write to its key and no other. The laws are discharged below for
  the association lists that model the maps.
\<close>

locale keyed_store =
  fixes ok :: "'m \<Rightarrow> bool"
    and empty :: 'm
    and get :: "'m \<Rightarrow> 'k \<Rightarrow> 'v option"
    and put :: "'k \<Rightarrow> 'v \<Rightarrow> 'm \<Rightarrow> 'm"
    and del :: "'k \<Rightarrow> 'm \<Rightarrow> 'm"
  assumes ok_empty: "ok empty"
    and ok_put: "ok m \<Longrightarrow> ok (put k v m)"
    and ok_del: "ok m \<Longrightarrow> ok (del k m)"
    and get_empty: "get empty k = None"
    and get_put: "ok m \<Longrightarrow> get (put k v m) j = (if j = k then Some v else get m j)"
    and get_del: "ok m \<Longrightarrow> get (del k m) j = (if j = k then None else get m j)"
begin

lemma put_put: "ok m \<Longrightarrow> get (put k v (put k w m)) = get (put k v m)"
  by (rule ext) (simp add: get_put ok_put)

lemma put_commute:
  "ok m \<Longrightarrow> j \<noteq> k \<Longrightarrow> get (put j w (put k v m)) = get (put k v (put j w m))"
  by (rule ext) (auto simp: get_put ok_put)

lemma del_put: "ok m \<Longrightarrow> get (del k (put k v m)) = get (del k m)"
  by (rule ext) (simp add: get_put get_del ok_put)

lemma del_fresh: "ok m \<Longrightarrow> get m k = None \<Longrightarrow> get (del k (put k v m)) = get m"
  by (rule ext) (auto simp: get_put get_del ok_put)

text \<open>After any sequence of writes and deletions a lookup sees the last event on its key.\<close>

lemma ok_fold:
  "ok m \<Longrightarrow> ok (fold (\<lambda>(k, w). case w of None \<Rightarrow> del k | Some v \<Rightarrow> put k v) ws m)"
  by (induction ws arbitrary: m) (auto simp: ok_put ok_del split: option.splits)

lemma get_fold:
  "ok m \<Longrightarrow> get (fold (\<lambda>(k, w). case w of None \<Rightarrow> del k | Some v \<Rightarrow> put k v) ws m) j
     = (case map_of (rev ws) j of None \<Rightarrow> get m j | Some w \<Rightarrow> w)"
proof (induction ws rule: rev_induct)
  case Nil
  then show ?case by simp
next
  case (snoc x ws)
  then show ?case
    using ok_fold [of m ws]
    by (cases x) (auto simp: get_put get_del split: option.splits)
qed

end

interpretation gm: keyed_store go_ok "[]" go_get go_set go_delete
  by unfold_locales auto

end
