(* ===== verification/Mesh_Registry.thy ===== *)
theory Mesh_Registry
  imports Mesh_Prelude
begin

text \<open>
  The service registry, \<open>internal/registry/registry.go\<close>: the instance record, the
  in-memory implementation with every method of the \<open>Registry\<close> interface, its
  invariant, its abstract view (a finite map from service key and instance ID to
  instances) and the contract the control plane relies on, as a locale interpreted on the
  in-memory implementation.

  Every method runs under the registry's mutex and is one atomic step here. The clock
  \<open>r.now()\<close> is read once per method and is its first argument.
\<close>

section \<open>Data\<close>

record Instance =
  ServiceName :: string
  Namespace :: string
  InstanceID :: string
  Address :: string
  Port :: int
  Protocol :: string
  Version :: string
  Metadata :: "(string, string) gomap option"
  Healthy :: bool
  RegisteredAt :: time
  LastHeartbeat :: time

datatype registry_error = ErrNotFound | ErrRequired

record InMemory =
  svcs :: "(string, (string, Instance) gomap) gomap"

section \<open>Operations\<close>

definition key :: "string \<Rightarrow> string \<Rightarrow> string" where
  "key namespace name = namespace @ ''/'' @ name"

definition New :: InMemory where
  "New = \<lparr>svcs = []\<rparr>"

definition Register :: "time \<Rightarrow> Instance \<Rightarrow> InMemory \<Rightarrow> InMemory \<times> registry_error option" where
  "Register now inst r =
     (if ServiceName inst = [] \<or> InstanceID inst = [] then (r, Some ErrRequired)
      else
        let k = key (Namespace inst) (ServiceName inst);
            bucket = (case go_get (svcs r) k of None \<Rightarrow> [] | Some m \<Rightarrow> m);
            inst = inst\<lparr>RegisteredAt := now\<rparr>;
            inst = inst\<lparr>LastHeartbeat := RegisteredAt inst\<rparr>;
            inst = (if \<not> Healthy inst then inst\<lparr>Healthy := True\<rparr> else inst)
        in (r\<lparr>svcs := go_set k (go_set (InstanceID inst) inst bucket) (svcs r)\<rparr>, None))"

definition Deregister ::
    "string \<Rightarrow> string \<Rightarrow> string \<Rightarrow> InMemory \<Rightarrow> InMemory \<times> registry_error option" where
  "Deregister namespace serviceName instanceID r =
     (let k = key namespace serviceName in
      case go_get (svcs r) k of
        None \<Rightarrow> (r, None)
      | Some bucket \<Rightarrow> (r\<lparr>svcs := go_set k (go_delete instanceID bucket) (svcs r)\<rparr>, None))"

definition Heartbeat ::
    "time \<Rightarrow> string \<Rightarrow> string \<Rightarrow> string \<Rightarrow> InMemory \<Rightarrow> InMemory \<times> registry_error option" where
  "Heartbeat now namespace serviceName instanceID r =
     (let k = key namespace serviceName in
      case go_get (svcs r) k of
        None \<Rightarrow> (r, Some ErrNotFound)
      | Some instances \<Rightarrow>
          (case go_get instances instanceID of
             None \<Rightarrow> (r, Some ErrNotFound)
           | Some inst \<Rightarrow>
               let inst = inst\<lparr>LastHeartbeat := now\<rparr>;
                   inst = inst\<lparr>Healthy := True\<rparr>
               in (r\<lparr>svcs := go_set k (go_set instanceID inst instances) (svcs r)\<rparr>, None)))"

fun ListServices_loop ::
    "string \<Rightarrow> (string \<times> (string, Instance) gomap) list \<Rightarrow> string list \<Rightarrow> string list" where
  "ListServices_loop prefix [] names = names"
| "ListServices_loop prefix ((k, instances) # rest) names =
     (if length instances = 0 then ListServices_loop prefix rest names
      else if length k > length prefix \<and> take (length prefix) k = prefix
      then ListServices_loop prefix rest (names @ [drop (length prefix) k])
      else ListServices_loop prefix rest names)"

definition ListServices :: "string \<Rightarrow> InMemory \<Rightarrow> string list" where
  "ListServices namespace r =
     (let prefix = namespace @ ''/'' in sort (ListServices_loop prefix (svcs r) []))"

text \<open>\<open>sort.Slice\<close> leaves the order of equal IDs open. In one service IDs are distinct, so \<open>sort_key\<close>
  is its only result there; across services, in the result of a sweep, it is one of them, and
  what is proved of that result does not depend on the choice.\<close>

definition sortedInstances :: "(string, Instance) gomap \<Rightarrow> Instance list" where
  "sortedInstances m = sort_key InstanceID (map snd m)"

definition GetService ::
    "string \<Rightarrow> string \<Rightarrow> InMemory \<Rightarrow> registry_error + Instance list" where
  "GetService namespace serviceName r =
     (case go_get (svcs r) (key namespace serviceName) of
        None \<Rightarrow> Inl ErrNotFound
      | Some instances \<Rightarrow>
          if length instances = 0 then Inl ErrNotFound else Inr (sortedInstances instances))"

fun HealthyInstances_loop ::
    "time \<Rightarrow> duration \<Rightarrow> Instance list \<Rightarrow> Instance list \<Rightarrow> Instance list" where
  "HealthyInstances_loop now staleAfter [] out = out"
| "HealthyInstances_loop now staleAfter (inst # rest) out =
     (if \<not> Healthy inst then HealthyInstances_loop now staleAfter rest out
      else if staleAfter > 0 \<and> time_Sub now (LastHeartbeat inst) > staleAfter
      then HealthyInstances_loop now staleAfter rest out
      else HealthyInstances_loop now staleAfter rest (out @ [inst]))"

definition HealthyInstances ::
    "time \<Rightarrow> string \<Rightarrow> string \<Rightarrow> duration \<Rightarrow> InMemory \<Rightarrow> Instance list" where
  "HealthyInstances now namespace serviceName staleAfter r =
     (case go_get (svcs r) (key namespace serviceName) of
        None \<Rightarrow> []
      | Some instances \<Rightarrow>
          if length instances = 0 then []
          else HealthyInstances_loop now staleAfter (sortedInstances instances) [])"

text \<open>The two nested loops of \<open>SweepStale\<close>: the entries after the pass, and the
  instances that changed so far, in visiting order.\<close>

fun SweepStale_bucket ::
    "time \<Rightarrow> duration \<Rightarrow> (string \<times> Instance) list \<Rightarrow> Instance list
       \<Rightarrow> (string \<times> Instance) list \<times> Instance list" where
  "SweepStale_bucket now staleAfter [] transitioned = ([], transitioned)"
| "SweepStale_bucket now staleAfter ((iid, inst) # rest) transitioned =
     (if Healthy inst \<and> time_Sub now (LastHeartbeat inst) > staleAfter
      then let inst = inst\<lparr>Healthy := False\<rparr>;
               (rest', tr) = SweepStale_bucket now staleAfter rest (transitioned @ [inst])
           in ((iid, inst) # rest', tr)
      else let (rest', tr) = SweepStale_bucket now staleAfter rest transitioned
           in ((iid, inst) # rest', tr))"

fun SweepStale_loop ::
    "time \<Rightarrow> duration \<Rightarrow> (string \<times> (string, Instance) gomap) list \<Rightarrow> Instance list
       \<Rightarrow> (string \<times> (string, Instance) gomap) list \<times> Instance list" where
  "SweepStale_loop now staleAfter [] transitioned = ([], transitioned)"
| "SweepStale_loop now staleAfter ((k, instances) # rest) transitioned =
     (let (instances', tr) = SweepStale_bucket now staleAfter instances transitioned;
          (rest', tr') = SweepStale_loop now staleAfter rest tr
      in ((k, instances') # rest', tr'))"

definition SweepStale :: "time \<Rightarrow> duration \<Rightarrow> InMemory \<Rightarrow> InMemory \<times> Instance list" where
  "SweepStale now staleAfter r =
     (if staleAfter \<le> 0 then (r, [])
      else let (entries, transitioned) = SweepStale_loop now staleAfter (svcs r) []
           in (r\<lparr>svcs := entries\<rparr>, sort_key InstanceID transitioned))"

section \<open>Invariant and abstract view\<close>

text \<open>
  Every bucket is filed under the key of its instances and every instance under its own
  ID; service name and instance ID are never empty.
\<close>

definition inst_ok :: "string \<Rightarrow> string \<Rightarrow> Instance \<Rightarrow> bool" where
  "inst_ok k iid inst \<longleftrightarrow>
     InstanceID inst = iid \<and> iid \<noteq> [] \<and> ServiceName inst \<noteq> []
     \<and> key (Namespace inst) (ServiceName inst) = k"

definition bucket_ok :: "string \<Rightarrow> (string, Instance) gomap \<Rightarrow> bool" where
  "bucket_ok k m \<longleftrightarrow> go_ok m \<and> list_all (\<lambda>(iid, inst). inst_ok k iid inst) m"

definition reg_inv :: "InMemory \<Rightarrow> bool" where
  "reg_inv r \<longleftrightarrow> go_ok (svcs r) \<and> list_all (\<lambda>(k, m). bucket_ok k m) (svcs r)"

text \<open>The instance stored for a service key and an instance ID.\<close>

definition find_instance :: "InMemory \<Rightarrow> string \<Rightarrow> string \<Rightarrow> Instance option" where
  "find_instance r k iid =
     (case go_get (svcs r) k of None \<Rightarrow> None | Some m \<Rightarrow> go_get m iid)"

definition stale :: "time \<Rightarrow> duration \<Rightarrow> Instance \<Rightarrow> bool" where
  "stale now staleAfter inst \<longleftrightarrow> time_Sub now (LastHeartbeat inst) > staleAfter"

text \<open>What a sweep does to one instance.\<close>

definition sweep_instance :: "time \<Rightarrow> duration \<Rightarrow> Instance \<Rightarrow> Instance" where
  "sweep_instance now staleAfter inst =
     (if stale now staleAfter inst then inst\<lparr>Healthy := False\<rparr> else inst)"

text \<open>The instances a client may be routed to.\<close>

definition routable :: "time \<Rightarrow> duration \<Rightarrow> Instance \<Rightarrow> bool" where
  "routable now staleAfter inst \<longleftrightarrow>
     Healthy inst \<and> \<not> (staleAfter > 0 \<and> stale now staleAfter inst)"

text \<open>Two registries with the same contents, whatever the order of their maps and
  whether or not they keep empty buckets.\<close>

definition reg_equiv :: "InMemory \<Rightarrow> InMemory \<Rightarrow> bool" where
  "reg_equiv r r' \<longleftrightarrow> reg_inv r \<and> reg_inv r' \<and> find_instance r = find_instance r'"

section \<open>Lemmas\<close>

subsection \<open>Keys\<close>

lemma key_same_namespace [simp]: "key ns a = key ns b \<longleftrightarrow> a = b"
  by (simp add: key_def)

lemma key_inject:
  "CHR ''/'' \<notin> set ns \<Longrightarrow> CHR ''/'' \<notin> set ns' \<Longrightarrow> key ns a = key ns' b \<longleftrightarrow> ns = ns' \<and> a = b"
  by (simp add: key_def append_sep_inject)

subsection \<open>The loops as comprehensions\<close>

lemma Instance_unhealthy_id [simp]: "\<not> Healthy i \<Longrightarrow> i\<lparr>Healthy := False\<rparr> = i"
  by (cases i) simp

lemma ListServices_loop_eq:
  "ListServices_loop p es names =
     names @ map (\<lambda>(k, m). drop (length p) k)
       (filter (\<lambda>(k, m). m \<noteq> [] \<and> length k > length p \<and> take (length p) k = p) es)"
  by (induction p es names rule: ListServices_loop.induct) auto

lemma HealthyInstances_loop_eq:
  "HealthyInstances_loop now d is out = out @ filter (routable now d) is"
  by (induction now d "is" out rule: HealthyInstances_loop.induct)
    (auto simp: routable_def stale_def)

lemma SweepStale_bucket_eq:
  "SweepStale_bucket now d es tr =
     (map (\<lambda>(iid, i). (iid, sweep_instance now d i)) es,
      tr @ map (\<lambda>i. i\<lparr>Healthy := False\<rparr>) (filter (\<lambda>i. Healthy i \<and> stale now d i) (map snd es)))"
  by (induction now d es tr rule: SweepStale_bucket.induct)
    (auto simp: sweep_instance_def stale_def Let_def split: prod.splits)

lemma SweepStale_loop_eq:
  "SweepStale_loop now d es tr =
     (map (\<lambda>(k, m). (k, map (\<lambda>(iid, i). (iid, sweep_instance now d i)) m)) es,
      tr @ map (\<lambda>i. i\<lparr>Healthy := False\<rparr>)
        (filter (\<lambda>i. Healthy i \<and> stale now d i) (concat (map (map snd \<circ> snd) es))))"
  by (induction now d es tr rule: SweepStale_loop.induct)
    (auto simp: SweepStale_bucket_eq)

subsection \<open>Lookups after each operation\<close>

lemma find_New [simp]: "find_instance New k iid = None"
  by (simp add: find_instance_def New_def)

text \<open>The entry that a successful registration stores.\<close>

definition registered :: "time \<Rightarrow> Instance \<Rightarrow> Instance" where
  "registered now inst = inst\<lparr>RegisteredAt := now, LastHeartbeat := now, Healthy := True\<rparr>"

lemma Register_ok:
  "ServiceName inst \<noteq> [] \<Longrightarrow> InstanceID inst \<noteq> [] \<Longrightarrow>
   Register now inst r =
     (let k = key (Namespace inst) (ServiceName inst) in
      (r\<lparr>svcs := go_set k
          (go_set (InstanceID inst) (registered now inst)
             (case go_get (svcs r) k of None \<Rightarrow> [] | Some m \<Rightarrow> m)) (svcs r)\<rparr>, None))"
  by (cases inst) (auto simp: Register_def registered_def Let_def)

lemma find_Register:
  "find_instance (fst (Register now inst r)) k iid =
     (if ServiceName inst \<noteq> [] \<and> InstanceID inst \<noteq> []
         \<and> k = key (Namespace inst) (ServiceName inst) \<and> iid = InstanceID inst
      then Some (registered now inst) else find_instance r k iid)"
proof (cases "ServiceName inst = [] \<or> InstanceID inst = []")
  case True
  then show ?thesis by (auto simp: Register_def)
next
  case False
  then show ?thesis
    by (auto simp: Register_ok Let_def find_instance_def split: option.splits)
qed

lemma find_Deregister:
  "find_instance (fst (Deregister ns svc i r)) k iid =
     (if k = key ns svc \<and> iid = i then None else find_instance r k iid)"
  by (auto simp: Deregister_def Let_def find_instance_def split: option.splits)

lemma find_Heartbeat:
  "find_instance (fst (Heartbeat now ns svc i r)) k iid =
     (if k = key ns svc \<and> iid = i
      then map_option (\<lambda>inst. inst\<lparr>LastHeartbeat := now, Healthy := True\<rparr>) (find_instance r k iid)
      else find_instance r k iid)"
  by (auto simp: Heartbeat_def Let_def find_instance_def split: option.splits)

lemma go_get_map_snd: "go_get (map (\<lambda>(k, v). (k, f v)) m) k = map_option f (go_get m k)"
  by (induction m) auto

lemma go_ok_map_snd [simp]: "go_ok (map (\<lambda>(k, v). (k, f v)) m) = go_ok m"
  by (simp add: go_ok_def comp_def case_prod_unfold)

lemma svcs_SweepStale:
  "svcs (fst (SweepStale now d r)) =
     (if d \<le> 0 then svcs r
      else map (\<lambda>(k, m). (k, map (\<lambda>(iid, i). (iid, sweep_instance now d i)) m)) (svcs r))"
  by (simp add: SweepStale_def SweepStale_loop_eq)

lemma find_SweepStale:
  "find_instance (fst (SweepStale now d r)) k iid =
     (if d \<le> 0 then find_instance r k iid
      else map_option (sweep_instance now d) (find_instance r k iid))"
  by (auto simp: find_instance_def svcs_SweepStale go_get_map_snd split: option.splits)

subsection \<open>The invariant\<close>

lemma bucket_ok_Nil [simp]: "bucket_ok k []"
  by (simp add: bucket_ok_def)

lemma bucket_ok_set [simp, intro]:
  "bucket_ok k m \<Longrightarrow> inst_ok k iid i \<Longrightarrow> bucket_ok k (go_set iid i m)"
  by (auto simp: bucket_ok_def list_all_iff set_go_set)

lemma bucket_ok_delete [simp, intro]: "bucket_ok k m \<Longrightarrow> bucket_ok k (go_delete iid m)"
  by (auto simp: bucket_ok_def list_all_iff set_go_delete)

lemma bucket_ok_get: "bucket_ok k m \<Longrightarrow> go_get m iid = Some i \<Longrightarrow> inst_ok k iid i"
  by (auto simp: bucket_ok_def list_all_iff dest: go_get_mem)

lemma reg_inv_bucket: "reg_inv r \<Longrightarrow> go_get (svcs r) k = Some m \<Longrightarrow> bucket_ok k m"
  by (auto simp: reg_inv_def list_all_iff dest: go_get_mem)

lemma reg_inv_find: "reg_inv r \<Longrightarrow> find_instance r k iid = Some i \<Longrightarrow> inst_ok k iid i"
  by (auto simp: find_instance_def split: option.splits dest: reg_inv_bucket bucket_ok_get)

lemma reg_inv_get:
  "reg_inv r \<Longrightarrow> go_get (svcs r) k = Some m \<Longrightarrow> go_get m iid = Some i \<Longrightarrow> inst_ok k iid i"
  using bucket_ok_get reg_inv_bucket by blast

text \<open>Replacing one bucket by a well-formed one keeps the invariant.\<close>

lemma reg_inv_set_bucket:
  "reg_inv r \<Longrightarrow> bucket_ok k m \<Longrightarrow> reg_inv (r\<lparr>svcs := go_set k m (svcs r)\<rparr>)"
  by (auto simp: reg_inv_def list_all_iff set_go_set)

lemma reg_inv_New [inv_intros]: "reg_inv New"
  by (simp add: reg_inv_def New_def)

lemma inst_ok_registered:
  "ServiceName i \<noteq> [] \<Longrightarrow> InstanceID i \<noteq> [] \<Longrightarrow>
   inst_ok (key (Namespace i) (ServiceName i)) (InstanceID i) (registered now i)"
  by (simp add: inst_ok_def registered_def)

lemma reg_inv_Register [inv_intros]: "reg_inv r \<Longrightarrow> reg_inv (fst (Register now inst r))"
proof (cases "ServiceName inst = [] \<or> InstanceID inst = []")
  case False
  then show "reg_inv r \<Longrightarrow> reg_inv (fst (Register now inst r))"
    by (auto simp: Register_ok Let_def split: option.splits
        intro!: reg_inv_set_bucket bucket_ok_set inst_ok_registered dest: reg_inv_bucket)
qed (auto simp: Register_def)

lemma reg_inv_Deregister [inv_intros]: "reg_inv r \<Longrightarrow> reg_inv (fst (Deregister ns svc i r))"
  by (auto simp: Deregister_def Let_def split: option.splits
      intro!: reg_inv_set_bucket dest: reg_inv_bucket)

lemma inst_ok_heartbeat [simp]:
  "inst_ok k iid (i\<lparr>LastHeartbeat := t, Healthy := b\<rparr>) = inst_ok k iid i"
  by (simp add: inst_ok_def)

lemma reg_inv_Heartbeat [inv_intros]: "reg_inv r \<Longrightarrow> reg_inv (fst (Heartbeat now ns svc i r))"
  by (auto simp: Heartbeat_def Let_def split: option.splits
      intro!: reg_inv_set_bucket bucket_ok_set intro: reg_inv_bucket reg_inv_get)

lemma inst_ok_sweep [simp]: "inst_ok k iid (sweep_instance now d i) = inst_ok k iid i"
  by (simp add: inst_ok_def sweep_instance_def)

lemma bucket_ok_sweep [simp]:
  "bucket_ok k (map (\<lambda>(iid, i). (iid, sweep_instance now d i)) m) = bucket_ok k m"
  by (auto simp: bucket_ok_def list_all_iff)

lemma reg_inv_SweepStale [inv_intros]: "reg_inv r \<Longrightarrow> reg_inv (fst (SweepStale now d r))"
  by (auto simp: reg_inv_def svcs_SweepStale list_all_iff)

subsection \<open>The listings\<close>

lemma bucket_ids: "bucket_ok k m \<Longrightarrow> map (InstanceID \<circ> snd) m = map fst m"
  by (auto simp: bucket_ok_def list_all_iff inst_ok_def)

lemma set_snd_bucket: "bucket_ok k m \<Longrightarrow> i \<in> set (map snd m) \<longleftrightarrow> go_get m (InstanceID i) = Some i"
  by (force simp: bucket_ok_def list_all_iff inst_ok_def go_get_iff)

lemma sortedInstances_strict:
  "bucket_ok k m \<Longrightarrow> sorted_wrt (<) (map InstanceID (sortedInstances m))"
  by (simp add: sortedInstances_def strict_sorted_iff bucket_ids) (simp add: bucket_ok_def go_ok_def)

text \<open>The stored instances of one service key, by instance ID.\<close>

definition instances_of :: "InMemory \<Rightarrow> string \<Rightarrow> Instance set" where
  "instances_of r k = {i. find_instance r k (InstanceID i) = Some i}"

definition all_instances :: "InMemory \<Rightarrow> string \<Rightarrow> Instance list" where
  "all_instances r k = (case go_get (svcs r) k of None \<Rightarrow> [] | Some m \<Rightarrow> sortedInstances m)"

lemma set_all_instances: "reg_inv r \<Longrightarrow> set (all_instances r k) = instances_of r k"
proof (cases "go_get (svcs r) k")
  case (Some m)
  moreover assume "reg_inv r"
  ultimately have "bucket_ok k m" by (simp add: reg_inv_bucket)
  with Some show ?thesis
    using set_snd_bucket [of k m]
    by (auto simp: all_instances_def instances_of_def find_instance_def sortedInstances_def
        simp del: set_map)
qed (simp add: all_instances_def instances_of_def find_instance_def)

lemma all_instances_strict:
  "reg_inv r \<Longrightarrow> sorted_wrt (<) (map InstanceID (all_instances r k))"
  by (auto simp: all_instances_def split: option.splits dest: sortedInstances_strict reg_inv_bucket)

text \<open>The listing of a service depends on the abstract contents only.\<close>

lemma all_instances_cong: "reg_equiv r r' \<Longrightarrow> all_instances r k = all_instances r' k"
proof -
  assume "reg_equiv r r'"
  then have inv: "reg_inv r" "reg_inv r'" and eq: "instances_of r k = instances_of r' k"
    by (simp_all add: reg_equiv_def instances_of_def)
  have "inj_on InstanceID (instances_of r k)"
    by (rule inj_onI) (simp add: instances_of_def)
  then show ?thesis
    using inv eq
    by (intro strict_key_unique [of InstanceID]) (simp_all add: all_instances_strict set_all_instances)
qed

lemma GetService_eq:
  "GetService ns svc r =
     (if all_instances r (key ns svc) = [] then Inl ErrNotFound
      else Inr (all_instances r (key ns svc)))"
  by (auto simp: GetService_def all_instances_def sortedInstances_def split: option.splits)

lemma HealthyInstances_eq:
  "HealthyInstances now ns svc d r = filter (routable now d) (all_instances r (key ns svc))"
  by (auto simp: HealthyInstances_def all_instances_def HealthyInstances_loop_eq sortedInstances_def
      split: option.splits)

definition service_names :: "InMemory \<Rightarrow> string \<Rightarrow> string set" where
  "service_names r ns = {n. n \<noteq> [] \<and> (\<exists>iid. find_instance r (key ns n) iid \<noteq> None)}"

lemma bucket_nonempty: "m \<noteq> [] \<longleftrightarrow> (\<exists>iid. go_get m iid \<noteq> None)"
  by (cases m) auto

lemma ListServices_raw:
  "ListServices ns r = sort (map (\<lambda>(k, m). drop (length (ns @ ''/'')) k)
     (filter (\<lambda>(k, m). m \<noteq> [] \<and> length k > length (ns @ ''/'')
        \<and> take (length (ns @ ''/'')) k = ns @ ''/'') (svcs r)))"
  unfolding ListServices_def Let_def ListServices_loop_eq append_Nil ..

lemma distinct_drop_prefix:
  assumes "go_ok m" and "\<And>k v. P (k, v) \<Longrightarrow> take (length p) k = p"
  shows "distinct (map (\<lambda>(k, v). drop (length p) k) (filter P m))"
proof -
  let ?es = "filter P m"
  have "map ((@) p) (map (\<lambda>(k, v). drop (length p) k) ?es) = map fst ?es"
    using assms(2) by (auto simp: prefix_restore)
  then have "distinct (map ((@) p) (map (\<lambda>(k, v). drop (length p) k) ?es))"
    using assms(1) by (simp only: go_ok_def distinct_map_filter)
  then show ?thesis using distinct_map by blast
qed

lemma ListServices_strict:
  assumes "reg_inv r"
  shows "sorted_wrt (<) (ListServices ns r)"
  unfolding ListServices_raw
  by (rule sorted_distinct_sort, rule distinct_drop_prefix)
    (use assms in \<open>auto simp: reg_inv_def\<close>)

lemma set_ListServices:
  assumes "reg_inv r"
  shows "set (ListServices ns r) = service_names r ns"
proof -
  have "n \<in> set (ListServices ns r) \<longleftrightarrow>
      (\<exists>m. (ns @ ''/'' @ n, m) \<in> set (svcs r) \<and> m \<noteq> [] \<and> n \<noteq> [])" for n
    unfolding ListServices_raw set_sort take_drop_prefix by force
  moreover have "n \<in> service_names r ns \<longleftrightarrow>
      (\<exists>m. (ns @ ''/'' @ n, m) \<in> set (svcs r) \<and> m \<noteq> [] \<and> n \<noteq> [])" for n
    using assms
    by (auto simp: service_names_def key_def find_instance_def bucket_nonempty
        go_get_iff [symmetric] reg_inv_def split: option.splits) blast+
  ultimately show ?thesis by blast
qed

lemma ListServices_cong: "reg_equiv r r' \<Longrightarrow> ListServices ns r = ListServices ns r'"
  by (rule strict_sorted_equal)
    (simp_all add: reg_equiv_def ListServices_strict set_ListServices service_names_def)

subsection \<open>The transitions of a sweep\<close>

lemma SweepStale_transitioned:
  "d > 0 \<Longrightarrow> snd (SweepStale now d r) =
     sort_key InstanceID (map (\<lambda>i. i\<lparr>Healthy := False\<rparr>)
       (filter (\<lambda>i. Healthy i \<and> stale now d i) (concat (map (map snd \<circ> snd) (svcs r)))))"
  by (simp add: SweepStale_def SweepStale_loop_eq)

lemma mem_all_entries:
  "reg_inv r \<Longrightarrow> i \<in> set (concat (map (map snd \<circ> snd) (svcs r)))
     \<longleftrightarrow> (\<exists>k. find_instance r k (InstanceID i) = Some i)"
proof
  assume inv: "reg_inv r" and "i \<in> set (concat (map (map snd \<circ> snd) (svcs r)))"
  then obtain k m iid where km: "(k, m) \<in> set (svcs r)" and im: "(iid, i) \<in> set m" by auto
  then have get: "go_get (svcs r) k = Some m"
    using inv by (simp add: reg_inv_def go_get_iff)
  then have b: "bucket_ok k m" using inv by (simp add: reg_inv_bucket)
  moreover have "i \<in> set (map snd m)" using im by force
  ultimately have "go_get m (InstanceID i) = Some i" by (simp only: set_snd_bucket)
  with get show "\<exists>k. find_instance r k (InstanceID i) = Some i"
    by (intro exI [of _ k]) (simp add: find_instance_def)
qed (force simp: find_instance_def split: option.splits dest!: go_get_mem)

subsection \<open>Sequences of operations and the abstract registry\<close>

text \<open>
  A history of the registry is a sequence of the mutating calls, each with the clock
  reading it made. The abstract registry is the map of its contents.
\<close>

datatype reg_op =
    OpRegister time Instance
  | OpDeregister string string string
  | OpHeartbeat time string string string
  | OpSweep time duration

primrec reg_step :: "reg_op \<Rightarrow> InMemory \<Rightarrow> InMemory" where
  "reg_step (OpRegister now inst) r = fst (Register now inst r)"
| "reg_step (OpDeregister ns svc iid) r = fst (Deregister ns svc iid r)"
| "reg_step (OpHeartbeat now ns svc iid) r = fst (Heartbeat now ns svc iid r)"
| "reg_step (OpSweep now d) r = fst (SweepStale now d r)"

type_synonym abs_registry = "string \<Rightarrow> string \<Rightarrow> Instance option"

primrec abs_step :: "reg_op \<Rightarrow> abs_registry \<Rightarrow> abs_registry" where
  "abs_step (OpRegister now inst) a =
     (if ServiceName inst = [] \<or> InstanceID inst = [] then a
      else a(key (Namespace inst) (ServiceName inst) :=
             (a (key (Namespace inst) (ServiceName inst)))(InstanceID inst \<mapsto> registered now inst)))"
| "abs_step (OpDeregister ns svc iid) a = a(key ns svc := (a (key ns svc))(iid := None))"
| "abs_step (OpHeartbeat now ns svc iid) a =
     (case a (key ns svc) iid of
        None \<Rightarrow> a
      | Some i \<Rightarrow> a(key ns svc :=
           (a (key ns svc))(iid \<mapsto> i\<lparr>LastHeartbeat := now, Healthy := True\<rparr>)))"
| "abs_step (OpSweep now d) a =
     (if d \<le> 0 then a else (\<lambda>k iid. map_option (sweep_instance now d) (a k iid)))"

lemma reg_inv_step [inv_intros]: "reg_inv r \<Longrightarrow> reg_inv (reg_step x r)"
  by (cases x) (auto intro: inv_intros)

lemma reg_inv_fold: "reg_inv r \<Longrightarrow> reg_inv (fold reg_step xs r)"
  by (induction xs arbitrary: r) (auto intro: inv_intros)

lemma find_reg_step: "find_instance (reg_step x r) = abs_step x (find_instance r)"
  by (cases x)
    (auto simp: fun_eq_iff find_Register find_Deregister find_Heartbeat find_SweepStale
      split: option.splits)

lemma find_fold_step: "find_instance (fold reg_step xs r) = fold abs_step xs (find_instance r)"
  by (induction xs arbitrary: r) (simp_all add: find_reg_step)

subsection \<open>The namespace of an operation\<close>

text \<open>The namespace that a call names; a sweep goes over all of them.\<close>

primrec op_namespace :: "reg_op \<Rightarrow> string option" where
  "op_namespace (OpRegister now inst) = Some (Namespace inst)"
| "op_namespace (OpDeregister ns svc iid) = Some ns"
| "op_namespace (OpHeartbeat now ns svc iid) = Some ns"
| "op_namespace (OpSweep now d) = None"

lemma abs_step_other:
  assumes "op_namespace x = Some ns'" and "ns' \<noteq> ns" and "CHR ''/'' \<notin> set ns" and "CHR ''/'' \<notin> set ns'"
  shows "abs_step x a (key ns n) = a (key ns n)"
  using assms by (cases x) (auto simp: key_inject split: option.splits)

lemma abs_step_own:
  assumes "op_namespace x \<in> {None, Some ns}" and "\<And>n. a (key ns n) = b (key ns n)"
  shows "abs_step x a (key ns n) = abs_step x b (key ns n)"
  using assms by (cases x) (auto split: option.splits)

lemma abs_own_ops:
  assumes "CHR ''/'' \<notin> set ns" and "\<forall>x\<in>set ops. \<forall>ns'. op_namespace x = Some ns' \<longrightarrow> CHR ''/'' \<notin> set ns'"
    and "\<And>n. a (key ns n) = b (key ns n)"
  shows "fold abs_step ops a (key ns n) = fold abs_step (filter (\<lambda>x. op_namespace x \<in> {None, Some ns}) ops) b (key ns n)"
  using assms(2,3)
proof (induction ops arbitrary: a b)
  case (Cons x ops)
  show ?case
  proof (cases "op_namespace x \<in> {None, Some ns}")
    case True
    have "abs_step x a (key ns n) = abs_step x b (key ns n)" for n
      using abs_step_own [OF True, of a b] Cons.prems(2) by blast
    with True Cons show ?thesis by simp
  next
    case False
    then obtain ns' where "op_namespace x = Some ns'" "ns' \<noteq> ns" by auto
    with Cons.prems assms(1) have "abs_step x a (key ns n) = b (key ns n)" for n by (simp add: abs_step_other)
    with False Cons show ?thesis by auto
  qed
qed simp

section \<open>The registry contract\<close>

text \<open>
  What the clients of the \<open>Registry\<close> interface (the snapshot builder, the reconciler, the
  HTTP handlers) rely on, stated over the lookups \<open>find\<close>. The lemmas of the locale are
  the consequences the clients use; the in-memory registry is shown to satisfy the laws.
\<close>

locale registry_backend =
  fixes inv :: "'r \<Rightarrow> bool"
    and find :: "'r \<Rightarrow> string \<Rightarrow> string \<Rightarrow> Instance option"
    and register :: "time \<Rightarrow> Instance \<Rightarrow> 'r \<Rightarrow> 'r \<times> registry_error option"
    and deregister :: "string \<Rightarrow> string \<Rightarrow> string \<Rightarrow> 'r \<Rightarrow> 'r \<times> registry_error option"
    and heartbeat :: "time \<Rightarrow> string \<Rightarrow> string \<Rightarrow> string \<Rightarrow> 'r \<Rightarrow> 'r \<times> registry_error option"
    and sweep :: "time \<Rightarrow> duration \<Rightarrow> 'r \<Rightarrow> 'r \<times> Instance list"
    and list :: "string \<Rightarrow> 'r \<Rightarrow> string list"
    and get :: "string \<Rightarrow> string \<Rightarrow> 'r \<Rightarrow> registry_error + Instance list"
    and healthy :: "time \<Rightarrow> string \<Rightarrow> string \<Rightarrow> duration \<Rightarrow> 'r \<Rightarrow> Instance list"
  assumes inv_register: "inv r \<Longrightarrow> inv (fst (register now i r))"
    and inv_deregister: "inv r \<Longrightarrow> inv (fst (deregister ns svc iid r))"
    and inv_heartbeat: "inv r \<Longrightarrow> inv (fst (heartbeat now ns svc iid r))"
    and inv_sweep: "inv r \<Longrightarrow> inv (fst (sweep now d r))"
    and find_ok: "inv r \<Longrightarrow> find r k iid = Some i \<Longrightarrow> inst_ok k iid i"
    and find_register: "inv r \<Longrightarrow> find (fst (register now i r)) = abs_step (OpRegister now i) (find r)"
    and find_deregister:
      "inv r \<Longrightarrow> find (fst (deregister ns svc iid r)) = abs_step (OpDeregister ns svc iid) (find r)"
    and find_heartbeat:
      "inv r \<Longrightarrow> find (fst (heartbeat now ns svc iid r)) = abs_step (OpHeartbeat now ns svc iid) (find r)"
    and find_sweep: "inv r \<Longrightarrow> find (fst (sweep now d r)) = abs_step (OpSweep now d) (find r)"
    and heartbeat_err:
      "inv r \<Longrightarrow> snd (heartbeat now ns svc iid r) =
         (if find r (key ns svc) iid = None then Some ErrNotFound else None)"
    and list_strict: "inv r \<Longrightarrow> sorted_wrt (<) (list ns r)"
    and set_list: "inv r \<Longrightarrow> n \<in> set (list ns r) \<longleftrightarrow> n \<noteq> [] \<and> (\<exists>iid. find r (key ns n) iid \<noteq> None)"
    and get_NotFound: "inv r \<Longrightarrow> get ns svc r = Inl e \<longleftrightarrow> e = ErrNotFound \<and> find r (key ns svc) = Map.empty"
    and get_strict: "inv r \<Longrightarrow> get ns svc r = Inr is \<Longrightarrow> sorted_wrt (<) (map InstanceID is)"
    and set_get:
      "inv r \<Longrightarrow> get ns svc r = Inr is \<Longrightarrow> i \<in> set is \<longleftrightarrow> find r (key ns svc) (InstanceID i) = Some i"
    and healthy_get:
      "inv r \<Longrightarrow> healthy now ns svc d r =
         (case get ns svc r of Inl _ \<Rightarrow> [] | Inr is \<Rightarrow> filter (routable now d) is)"
begin

lemmas inv_laws = inv_register inv_deregister inv_heartbeat inv_sweep
lemmas find_laws = find_register find_deregister find_heartbeat find_sweep

text \<open>The listings are functions of the contents.\<close>

lemma list_cong: "inv r \<Longrightarrow> inv r' \<Longrightarrow> (\<And>n. find r (key ns n) = find r' (key ns n)) \<Longrightarrow> list ns r = list ns r'"
  by (rule strict_sorted_equal) (auto simp: list_strict set_list)

lemma get_cong:
  assumes "inv r" and "inv r'" and eq: "find r (key ns svc) = find r' (key ns svc)"
  shows "get ns svc r = get ns svc r'"
proof (cases "get ns svc r")
  case (Inl e)
  with assms have "get ns svc r' = Inl e" by (simp add: get_NotFound)
  with Inl show ?thesis by simp
next
  case (Inr as)
  then have "find r (key ns svc) \<noteq> Map.empty"
    using get_NotFound [OF assms(1), of ns svc ErrNotFound] by simp
  then have "get ns svc r' \<noteq> Inl e" for e
    using get_NotFound [OF assms(2), of ns svc e] eq by simp
  then obtain bs where bs: "get ns svc r' = Inr bs"
    by (cases "get ns svc r'") auto
  have "as = bs"
    by (rule strict_key_unique [of InstanceID])
      (use assms Inr bs in \<open>auto simp: get_strict set_get inj_on_def\<close>)
  with Inr bs show ?thesis by simp
qed

lemma healthy_cong:
  "inv r \<Longrightarrow> inv r' \<Longrightarrow> find r (key ns svc) = find r' (key ns svc) \<Longrightarrow>
   healthy now ns svc d r = healthy now ns svc d r'"
  using get_cong [of r r' ns svc] by (simp add: healthy_get)

lemma mem_healthy:
  assumes "inv r"
  shows "i \<in> set (healthy now ns svc d r) \<longleftrightarrow>
     find r (key ns svc) (InstanceID i) = Some i \<and> routable now d i"
proof (cases "get ns svc r")
  case (Inl e)
  then have "find r (key ns svc) = Map.empty"
    using get_NotFound [OF assms, of ns svc e] by simp
  with Inl assms show ?thesis by (simp add: healthy_get)
next
  case (Inr xs)
  with assms show ?thesis by (auto simp: healthy_get set_get)
qed

text \<open>What a namespace shows depends on its own keys only.\<close>

lemma view_cong:
  assumes "inv r" and "inv r'" and "\<And>n. find r (key ns n) = find r' (key ns n)"
  shows "list ns r = list ns r'" and "get ns svc r = get ns svc r'"
    and "healthy t ns svc d r = healthy t ns svc d r'"
    and "snd (heartbeat t ns svc iid r) = snd (heartbeat t ns svc iid r')"
  using assms by (auto intro: list_cong get_cong healthy_cong simp: heartbeat_err)

text \<open>The life cycle of a registration.\<close>

lemma registered_healthy:
  assumes "inv r" and "ServiceName i \<noteq> []" and "InstanceID i \<noteq> []" and "t \<le> now + d" and "0 < d"
    and "d \<le> maxDuration"
  shows "registered now i \<in> set (healthy t (Namespace i) (ServiceName i) d (fst (register now i r)))"
proof -
  have "\<not> stale t d (registered now i)"
    using assms by (auto simp: stale_def registered_def time_Sub_def max_def min_def duration_defs)
  moreover have "InstanceID (registered now i) = InstanceID i" "Healthy (registered now i)"
    by (simp_all add: registered_def)
  ultimately show ?thesis
    using assms by (auto simp: mem_healthy inv_register find_register routable_def)
qed

lemma deregistered_gone:
  "inv r \<Longrightarrow> InstanceID i = iid \<Longrightarrow> i \<notin> set (healthy t ns svc d (fst (deregister ns svc iid r)))"
  by (simp add: mem_healthy inv_deregister find_deregister)

lemma stale_gone:
  assumes "inv r" and "0 < d" and "find r (key ns svc) (InstanceID i) = Some i" and "stale now d i"
  shows "find (fst (sweep now d r)) (key ns svc) (InstanceID i) = Some (i\<lparr>Healthy := False\<rparr>)"
    and "j \<in> set (healthy t ns svc d' (fst (sweep now d r))) \<Longrightarrow> InstanceID j \<noteq> InstanceID i"
  using assms by (auto simp: find_sweep sweep_instance_def mem_healthy inv_sweep routable_def)

lemma heartbeat_recovers:
  assumes "inv r" and "find r (key ns svc) iid = Some i" and "t \<le> now + d" and "0 < d" and "d \<le> maxDuration"
  shows "snd (heartbeat now ns svc iid r) = None"
    and "i\<lparr>LastHeartbeat := now, Healthy := True\<rparr> \<in> set (healthy t ns svc d (fst (heartbeat now ns svc iid r)))"
proof -
  have "InstanceID i = iid" using find_ok [OF assms(1,2)] by (simp add: inst_ok_def)
  moreover have "\<not> stale t d (i\<lparr>LastHeartbeat := now, Healthy := True\<rparr>)"
    using assms by (auto simp: stale_def time_Sub_def max_def min_def duration_defs)
  ultimately show "i\<lparr>LastHeartbeat := now, Healthy := True\<rparr>
      \<in> set (healthy t ns svc d (fst (heartbeat now ns svc iid r)))"
    using assms by (auto simp: mem_healthy inv_heartbeat find_heartbeat routable_def)
qed (use assms in \<open>simp add: heartbeat_err\<close>)

end

lemma bucket_empty_iff: "go_get m = Map.empty \<longleftrightarrow> m = []"
  using bucket_nonempty [of m] by (auto simp: fun_eq_iff)

lemma all_instances_Nil_iff: "all_instances r k = [] \<longleftrightarrow> find_instance r k = Map.empty"
proof (cases "go_get (svcs r) k")
  case (Some m)
  then have "find_instance r k = go_get m" by (simp add: find_instance_def fun_eq_iff)
  with Some show ?thesis by (simp add: all_instances_def sortedInstances_def bucket_empty_iff)
qed (simp add: all_instances_def find_instance_def fun_eq_iff)

interpretation mem: registry_backend reg_inv find_instance Register Deregister Heartbeat SweepStale
  ListServices GetService HealthyInstances
proof (unfold_locales, goal_cases)
  case (10 r now ns svc iid)
  then show ?case
    by (auto simp: Heartbeat_def Let_def find_instance_def split: option.splits)
qed (auto simp: inv_intros reg_inv_find find_reg_step [symmetric] ListServices_strict
    set_ListServices service_names_def GetService_eq HealthyInstances_eq all_instances_Nil_iff
    all_instances_strict set_all_instances instances_of_def split: if_splits)

section \<open>Properties\<close>

text \<open>Concrete registrations for the witnesses.\<close>

definition sample_instance :: "string \<Rightarrow> string \<Rightarrow> string \<Rightarrow> string \<Rightarrow> Instance" where
  "sample_instance ns svc iid ver =
     \<lparr>ServiceName = svc, Namespace = ns, InstanceID = iid, Address = ''10.0.0.1'', Port = 9000,
      Protocol = [], Version = ver, Metadata = None, Healthy = False, RegisteredAt = 0,
      LastHeartbeat = 0\<rparr>"

lemmas registry_eval = sample_instance_def New_def Register_def Deregister_def Heartbeat_def
  key_def find_instance_def registered_def go_set_def go_delete_def Let_def

text \<open>C7. Refinement: after any sequence of \<open>Register\<close>, \<open>Deregister\<close>, \<open>Heartbeat\<close> and
  \<open>SweepStale\<close> calls on a new registry, the two-level Go map holds exactly what the
  abstract registry, a plain map from service key and instance ID to instances, holds
  after the same calls.\<close>

theorem registry_refines:
  "find_instance (fold reg_step ops New) = fold abs_step ops (\<lambda>k iid. None)"
proof -
  have "find_instance New = (\<lambda>k iid. None)" by (simp add: fun_eq_iff)
  then show ?thesis by (simp add: find_fold_step)
qed

text \<open>C13. Invariant: in every registry that the operations can produce, every stored instance
  is filed under its own instance ID and the key of its own namespace and service, both
  names being nonempty.\<close>

theorem registry_invariant:
  "reg_inv (fold reg_step ops New)
   \<and> (find_instance (fold reg_step ops New) k iid = Some i \<longrightarrow>
        InstanceID i = iid \<and> iid \<noteq> [] \<and> ServiceName i \<noteq> [] \<and> key (Namespace i) (ServiceName i) = k)"
  using reg_inv_fold [OF reg_inv_New, of ops] reg_inv_find by (auto simp: inst_ok_def)

theorem registry_invariant_witness:
  "find_instance (fold reg_step [OpRegister 5 (sample_instance ''ns'' ''a'' ''i1'' [])] New) ''ns/a'' ''i1''
     = Some (registered 5 (sample_instance ''ns'' ''a'' ''i1'' []))
   \<and> InstanceID (registered 5 (sample_instance ''ns'' ''a'' ''i1'' [])) = ''i1''"
proof -
  have "find_instance (fold reg_step [OpRegister 5 (sample_instance ''ns'' ''a'' ''i1'' [])] New) ''ns/a'' ''i1''
     = Some (registered 5 (sample_instance ''ns'' ''a'' ''i1'' []))"
    by (simp add: registry_eval)
  with registry_invariant show ?thesis by blast
qed

lemma abs_step_unhealthy:
  "abs_step x a k iid = Some i \<Longrightarrow> \<not> Healthy i \<Longrightarrow>
   a k iid = Some i \<or> (\<exists>t d. x = OpSweep t d \<and> 0 < d \<and> stale t d i)"
  by (cases x)
    (auto simp: registered_def sweep_instance_def stale_def split: if_splits option.splits)

lemma abs_unhealthy:
  "fold abs_step ops (\<lambda>k iid. None) k iid = Some i \<Longrightarrow> \<not> Healthy i \<Longrightarrow>
   \<exists>t d. OpSweep t d \<in> set ops \<and> 0 < d \<and> stale t d i"
proof (induction ops rule: rev_induct)
  case (snoc x ops)
  then show ?case
    using abs_step_unhealthy [of x "fold abs_step ops (\<lambda>k iid. None)" k iid i] by auto
qed simp

text \<open>C14. Safety of health transitions: a stored instance is marked unhealthy only if some sweep
  of the history, enabled by a positive bound, found the instance's present last heartbeat
  older than that bound. Registration and heartbeats always clear the mark.\<close>

theorem unhealthy_only_after_missed_deadline:
  assumes "find_instance (fold reg_step ops New) k iid = Some i" and "\<not> Healthy i"
  shows "\<exists>t d. OpSweep t d \<in> set ops \<and> 0 < d \<and> time_Sub t (LastHeartbeat i) > d"
proof -
  have "find_instance New = (\<lambda>k iid. None)" by (simp add: fun_eq_iff)
  then show ?thesis
    using assms abs_unhealthy [of ops k iid i] by (simp add: find_fold_step stale_def)
qed

theorem unhealthy_only_after_missed_deadline_witness:
  "\<exists>t d. OpSweep t d \<in> set [OpRegister 5 (sample_instance ''ns'' ''a'' ''i1'' []), OpSweep 100 10]
     \<and> 0 < d \<and> time_Sub t (LastHeartbeat ((registered 5 (sample_instance ''ns'' ''a'' ''i1'' []))\<lparr>Healthy := False\<rparr>)) > d"
  by (rule unhealthy_only_after_missed_deadline [of _ "''ns/a''" "''i1''"])
    (simp_all add: registry_eval SweepStale_def time_Sub_def duration_defs)

text \<open>C12. Functional behaviour of \<open>SweepStale\<close>: with a positive bound it marks unhealthy exactly
  the stored instances whose last heartbeat is older than the bound and changes nothing
  else; it returns the instances that were healthy until then, in instance-ID order, each
  with the mark already set. With a bound of zero or less it does nothing.\<close>

theorem SweepStale_spec:
  assumes "reg_inv r"
  shows "(find_instance (fst (SweepStale now d r)) k iid =
      (if d \<le> 0 then find_instance r k iid
       else map_option (\<lambda>i. if time_Sub now (LastHeartbeat i) > d then i\<lparr>Healthy := False\<rparr> else i)
              (find_instance r k iid)))
   \<and> (sorted (map InstanceID (snd (SweepStale now d r))))
   \<and> (j \<in> set (snd (SweepStale now d r)) \<longleftrightarrow>
      0 < d \<and> (\<exists>k i. find_instance r k (InstanceID i) = Some i \<and> Healthy i
        \<and> time_Sub now (LastHeartbeat i) > d \<and> j = i\<lparr>Healthy := False\<rparr>))"
proof (intro conjI)
  show "find_instance (fst (SweepStale now d r)) k iid =
      (if d \<le> 0 then find_instance r k iid
       else map_option (\<lambda>i. if time_Sub now (LastHeartbeat i) > d then i\<lparr>Healthy := False\<rparr> else i)
              (find_instance r k iid))"
    by (simp add: find_SweepStale sweep_instance_def [abs_def] stale_def)
  show "sorted (map InstanceID (snd (SweepStale now d r)))"
    by (simp add: SweepStale_def SweepStale_loop_eq)
  show "j \<in> set (snd (SweepStale now d r)) \<longleftrightarrow>
      0 < d \<and> (\<exists>k i. find_instance r k (InstanceID i) = Some i \<and> Healthy i
        \<and> time_Sub now (LastHeartbeat i) > d \<and> j = i\<lparr>Healthy := False\<rparr>)"
  proof (cases "0 < d")
    case True
    then have "j \<in> set (snd (SweepStale now d r)) \<longleftrightarrow>
        (\<exists>i. i \<in> set (concat (map (map snd \<circ> snd) (svcs r))) \<and> Healthy i \<and> stale now d i
           \<and> j = i\<lparr>Healthy := False\<rparr>)"
      unfolding SweepStale_transitioned [OF True] set_sort by auto
    then show ?thesis
      unfolding mem_all_entries [OF assms] stale_def using True by blast
  qed (simp add: SweepStale_def)
qed

theorem SweepStale_spec_witness:
  "let r = fst (Register 5 (sample_instance ''ns'' ''a'' ''i1'' []) New) in
   reg_inv r \<and> sorted (map InstanceID (snd (SweepStale 100 10 r)))
   \<and> (registered 5 (sample_instance ''ns'' ''a'' ''i1'' []))\<lparr>Healthy := False\<rparr>
       \<in> set (snd (SweepStale 100 10 r))"
proof -
  let ?i = "sample_instance ''ns'' ''a'' ''i1'' []"
  let ?r = "fst (Register 5 ?i New)"
  have inv: "reg_inv ?r" by (intro inv_intros)
  have "find_instance ?r ''ns/a'' (InstanceID (registered 5 ?i)) = Some (registered 5 ?i)
      \<and> Healthy (registered 5 ?i) \<and> time_Sub 100 (LastHeartbeat (registered 5 ?i)) > 10"
    by (simp add: registry_eval time_Sub_def duration_defs)
  then have "(registered 5 ?i)\<lparr>Healthy := False\<rparr> \<in> set (snd (SweepStale 100 10 ?r))"
    unfolding SweepStale_spec [OF inv, THEN conjunct2, THEN conjunct2] by auto
  with inv SweepStale_spec [OF inv] show ?thesis by (simp add: Let_def)
qed

text \<open>C23. Deterministic listings: \<open>ListServices\<close>, \<open>GetService\<close> and \<open>HealthyInstances\<close> return
  equal lists on two registries with the same contents, whatever order the runtime visits
  the entries of their maps in and whatever empty buckets they keep.\<close>

theorem listings_order_independent:
  assumes "reg_inv r" and "reg_inv r'" and "find_instance r = find_instance r'"
  shows "(ListServices ns r = ListServices ns r')
   \<and> (GetService ns svc r = GetService ns svc r')
   \<and> (HealthyInstances now ns svc d r = HealthyInstances now ns svc d r')"
  using assms by (auto intro: mem.list_cong mem.get_cong mem.healthy_cong)

theorem listings_order_independent_witness:
  "let a = sample_instance ''ns'' ''a'' ''i1'' []; b = sample_instance ''ns'' ''b'' ''i1'' [];
       r = fold reg_step [OpRegister 5 a, OpRegister 5 b] New;
       r' = fold reg_step [OpRegister 5 b, OpRegister 5 a] New
   in r \<noteq> r' \<and> ListServices ''ns'' r = ListServices ''ns'' r'"
proof -
  let ?a = "sample_instance ''ns'' ''a'' ''i1'' []" and ?b = "sample_instance ''ns'' ''b'' ''i1'' []"
  let ?r = "fold reg_step [OpRegister 5 ?a, OpRegister 5 ?b] New"
  let ?r' = "fold reg_step [OpRegister 5 ?b, OpRegister 5 ?a] New"
  have "reg_inv ?r" "reg_inv ?r'" by (intro reg_inv_fold reg_inv_New)+
  moreover have "find_instance ?r = find_instance ?r'"
    by (auto simp: registry_eval fun_eq_iff)
  ultimately have "ListServices ''ns'' ?r = ListServices ''ns'' ?r'"
    using listings_order_independent by blast
  moreover have "?r \<noteq> ?r'" by (simp add: registry_eval)
  ultimately show ?thesis by (simp add: Let_def)
qed

text \<open>C26. Functional behaviour of the reads, on every reachable registry: \<open>ListServices\<close> returns,
  in strictly increasing order, exactly the nonempty names that have an instance under the
  namespace's key; \<open>GetService\<close> fails with \<open>ErrNotFound\<close> exactly when the service has no
  instance and otherwise returns all its instances in strictly increasing ID order; \<open>
  HealthyInstances\<close> returns those of them that are marked healthy and not stale.\<close>

theorem registry_reads:
  fixes ops
  defines "r \<equiv> fold reg_step ops New"
  shows "(sorted_wrt (<) (ListServices ns r))
   \<and> (n \<in> set (ListServices ns r) \<longleftrightarrow> n \<noteq> [] \<and> (\<exists>iid. find_instance r (key ns n) iid \<noteq> None))
   \<and> (case GetService ns svc r of
           Inl e \<Rightarrow> e = ErrNotFound \<and> find_instance r (key ns svc) = Map.empty
         | Inr is \<Rightarrow> is \<noteq> [] \<and> sorted_wrt (<) (map InstanceID is)
             \<and> set is = {i. find_instance r (key ns svc) (InstanceID i) = Some i})
   \<and> (set (HealthyInstances now ns svc d r) =
           {i. find_instance r (key ns svc) (InstanceID i) = Some i \<and> Healthy i
               \<and> (d \<le> 0 \<or> time_Sub now (LastHeartbeat i) \<le> d)})"
proof (intro conjI)
  have inv: "reg_inv r" unfolding r_def by (intro reg_inv_fold reg_inv_New)
  show "sorted_wrt (<) (ListServices ns r)" by (rule ListServices_strict [OF inv])
  show "n \<in> set (ListServices ns r) \<longleftrightarrow> n \<noteq> [] \<and> (\<exists>iid. find_instance r (key ns n) iid \<noteq> None)"
    by (rule mem.set_list [OF inv])
  show "case GetService ns svc r of
           Inl e \<Rightarrow> e = ErrNotFound \<and> find_instance r (key ns svc) = Map.empty
         | Inr is \<Rightarrow> is \<noteq> [] \<and> sorted_wrt (<) (map InstanceID is)
             \<and> set is = {i. find_instance r (key ns svc) (InstanceID i) = Some i}"
    using inv by (simp add: GetService_eq all_instances_Nil_iff all_instances_strict
        set_all_instances instances_of_def)
  show "set (HealthyInstances now ns svc d r) =
           {i. find_instance r (key ns svc) (InstanceID i) = Some i \<and> Healthy i
               \<and> (d \<le> 0 \<or> time_Sub now (LastHeartbeat i) \<le> d)}"
    unfolding set_eq_iff mem.mem_healthy [OF inv] routable_def stale_def mem_Collect_eq
    by (simp add: linorder_not_less)
qed

lemma Heartbeat_unknown:
  "find_instance r (key ns svc) iid = None \<Longrightarrow> Heartbeat now ns svc iid r = (r, Some ErrNotFound)"
  by (auto simp: Heartbeat_def Let_def find_instance_def split: option.splits)

text \<open>C27. Life cycle: while an instance is stored, a sweep that finds it stale takes it out of every
  later healthy listing, and one heartbeat succeeds and brings it back into the listing for
  as long as the bound allows. A heartbeat for an instance that is not stored fails with
  \<open>ErrNotFound\<close> and leaves the registry as it is, at any moment of that life cycle.\<close>

theorem heartbeat_recovers_swept:
  assumes "reg_inv r" and "find_instance r (key ns svc) iid = Some i" and "0 < d" and "d \<le> maxDuration"
    and "time_Sub swept (LastHeartbeat i) > d" and "t \<le> beat + d"
  defines "r1 \<equiv> fst (SweepStale swept d r)"
  defines "r2 \<equiv> fst (Heartbeat beat ns svc iid r1)"
  shows "(iid \<notin> InstanceID ` set (HealthyInstances t' ns svc d' r1))
   \<and> (snd (Heartbeat beat ns svc iid r1) = None)
   \<and> (i\<lparr>LastHeartbeat := beat, Healthy := True\<rparr> \<in> set (HealthyInstances t ns svc d r2))
   \<and> (find_instance r (key ns' svc') iid' = None \<longrightarrow>
        Heartbeat beat' ns' svc' iid' r = (r, Some ErrNotFound) \<and> Heartbeat beat' ns' svc' iid' r1 = (r1, Some ErrNotFound)
      \<and> Heartbeat beat' ns' svc' iid' r2 = (r2, Some ErrNotFound))"
proof (intro conjI impI)
  have iid: "InstanceID i = iid" using reg_inv_find [OF assms(1,2)] by (simp add: inst_ok_def)
  have inv1: "reg_inv r1" unfolding r1_def by (intro inv_intros assms)
  have st: "stale swept d i" using assms(5) by (simp add: stale_def)
  have found: "find_instance r (key ns svc) (InstanceID i) = Some i" using assms(2) iid by simp
  from mem.stale_gone(2) [OF assms(1,3) found st]
  show "iid \<notin> InstanceID ` set (HealthyInstances t' ns svc d' r1)"
    unfolding r1_def iid [symmetric] by (auto simp: image_iff dest: sym)
  from mem.stale_gone(1) [OF assms(1,3) found st]
  have found1: "find_instance r1 (key ns svc) iid = Some (i\<lparr>Healthy := False\<rparr>)"
    using iid unfolding r1_def by simp
  from mem.heartbeat_recovers [OF inv1 found1 assms(6) assms(3,4)]
  show "snd (Heartbeat beat ns svc iid r1) = None"
    and "i\<lparr>LastHeartbeat := beat, Healthy := True\<rparr> \<in> set (HealthyInstances t ns svc d r2)"
    by (simp_all add: r2_def)
next
  assume none: "find_instance r (key ns' svc') iid' = None"
  then have none1: "find_instance r1 (key ns' svc') iid' = None" by (simp add: r1_def find_SweepStale)
  then have "find_instance r2 (key ns' svc') iid' = None" unfolding r2_def find_Heartbeat
    by (auto split: option.splits)
  with none none1 show "Heartbeat beat' ns' svc' iid' r = (r, Some ErrNotFound)"
    "Heartbeat beat' ns' svc' iid' r1 = (r1, Some ErrNotFound)"
    "Heartbeat beat' ns' svc' iid' r2 = (r2, Some ErrNotFound)" by (simp_all add: Heartbeat_unknown)
qed

theorem heartbeat_recovers_swept_witness:
  "let i = sample_instance ''ns'' ''a'' ''i1'' []; r = fst (Register 5 i New);
       r1 = fst (SweepStale 100 10 r); r2 = fst (Heartbeat 101 ''ns'' ''a'' ''i1'' r1)
   in (registered 5 i)\<lparr>LastHeartbeat := 101, Healthy := True\<rparr> \<in> set (HealthyInstances 105 ''ns'' ''a'' 10 r2)"
  unfolding Let_def
  by (rule heartbeat_recovers_swept [THEN conjunct2, THEN conjunct2, THEN conjunct1])
    (simp_all add: registry_eval time_Sub_def duration_defs reg_inv_def bucket_ok_def inst_ok_def)

text \<open>C28. Namespace isolation, for namespaces without a slash: after any sequence of registrations,
  deregistrations, heartbeats and sweeps, the listings of a namespace, its services and their
  instances, and the answers to its heartbeats are those after the sweeps and the calls on
  that namespace alone; the calls on other namespaces do not show.\<close>

theorem namespace_isolation:
  fixes ops
  assumes "reg_inv r" and "CHR ''/'' \<notin> set ns"
    and "\<forall>x\<in>set ops. \<forall>ns'. op_namespace x = Some ns' \<longrightarrow> CHR ''/'' \<notin> set ns'"
  defines "r1 \<equiv> fold reg_step ops r"
  defines "r2 \<equiv> fold reg_step (filter (\<lambda>x. op_namespace x \<in> {None, Some ns}) ops) r"
  shows "(ListServices ns r1 = ListServices ns r2)
   \<and> (GetService ns svc r1 = GetService ns svc r2)
   \<and> (HealthyInstances t ns svc d r1 = HealthyInstances t ns svc d r2)
   \<and> (snd (Heartbeat t ns svc iid r1) = snd (Heartbeat t ns svc iid r2))"
proof -
  have inv: "reg_inv r1" "reg_inv r2" unfolding r1_def r2_def by (intro reg_inv_fold assms)+
  have "find_instance r1 (key ns n) = find_instance r2 (key ns n)" for n
    unfolding r1_def r2_def find_fold_step by (rule abs_own_ops [OF assms(2,3)]) simp
  with mem.view_cong [OF inv] show ?thesis by blast
qed

theorem namespace_isolation_witness:
  "let a = sample_instance ''ns1'' ''a'' ''i1'' []; b = sample_instance ''ns2'' ''a'' ''i1'' [];
       ops = [OpRegister 5 a, OpRegister 6 b, OpDeregister ''ns2'' ''a'' ''i1'', OpHeartbeat 7 ''ns2'' ''a'' ''i1'']
   in GetService ''ns1'' ''a'' (fold reg_step ops New) = Inr [registered 5 a]"
proof -
  let ?a = "sample_instance ''ns1'' ''a'' ''i1'' []" and ?b = "sample_instance ''ns2'' ''a'' ''i1'' []"
  let ?ops = "[OpRegister 5 ?a, OpRegister 6 ?b, OpDeregister ''ns2'' ''a'' ''i1'', OpHeartbeat 7 ''ns2'' ''a'' ''i1'']"
  have "GetService ''ns1'' ''a'' (fold reg_step ?ops New) =
      GetService ''ns1'' ''a'' (fold reg_step (filter (\<lambda>x. op_namespace x \<in> {None, Some ''ns1''}) ?ops) New)"
    by (rule namespace_isolation [OF reg_inv_New, THEN conjunct2, THEN conjunct1]) (auto simp: sample_instance_def)
  also have "\<dots> = Inr [registered 5 ?a]"
    by (simp add: registry_eval GetService_def sortedInstances_def)
  finally show ?thesis by (simp add: Let_def)
qed

text \<open>C37. The service key is not injective, so isolation fails for a namespace that contains a slash.
  In any registry, an instance that is accepted as service \<open>c\<close> of namespace \<open>a/b\<close> shows in
  namespace \<open>a\<close>: its listing has the service \<open>b/c\<close>, the lookup of that service returns the
  instance, and deregistering it there removes it from namespace \<open>a/b\<close>.\<close>

theorem namespace_collision:
  fixes now
  assumes "reg_inv r" and "Namespace i = a @ ''/'' @ b" and "ServiceName i = c" and "c \<noteq> []" and "InstanceID i \<noteq> []"
  defines "r1 \<equiv> fst (Register now i r)"
  shows "b @ ''/'' @ c \<in> set (ListServices a r1)
   \<and> (\<exists>is. GetService a (b @ ''/'' @ c) r1 = Inr is \<and> registered now i \<in> set is)
   \<and> find_instance (fst (Deregister a (b @ ''/'' @ c) (InstanceID i) r1)) (key (a @ ''/'' @ b) c) (InstanceID i) = None"
proof -
  have keys: "key a (b @ ''/'' @ c) = key (a @ ''/'' @ b) c" by (simp add: key_def)
  have inv: "reg_inv r1" unfolding r1_def by (intro inv_intros assms)
  have found: "find_instance r1 (key a (b @ ''/'' @ c)) (InstanceID i) = Some (registered now i)"
    unfolding r1_def keys using assms(2-5) by (simp add: find_Register)
  then have listed: "b @ ''/'' @ c \<in> set (ListServices a r1)" by (simp add: mem.set_list [OF inv]) blast
  have "find_instance r1 (key a (b @ ''/'' @ c)) \<noteq> Map.empty" using found by auto
  then obtain xs where xs: "GetService a (b @ ''/'' @ c) r1 = Inr xs"
    using mem.get_NotFound [OF inv] by (cases "GetService a (b @ ''/'' @ c) r1") auto
  have "registered now i \<in> set xs"
    using found by (simp add: mem.set_get [OF inv xs] registered_def)
  with listed xs show ?thesis by (simp only: find_Deregister keys) simp
qed

theorem namespace_collision_witness:
  "''b/c'' \<in> set (ListServices ''a'' (fst (Register 5 (sample_instance ''a/b'' ''c'' ''i1'' []) New)))"
  using namespace_collision [OF reg_inv_New, of "sample_instance ''a/b'' ''c'' ''i1'' []" "''a''" "''b''" "''c''" 5]
  by (simp add: sample_instance_def)

end
