(* ===== verification/Mesh_Routing.thy ===== *)
theory Mesh_Routing
  imports Mesh_Prelude
begin

text \<open>
  Traffic-management configuration, \<open>internal/routing/route.go\<close>: the specification of a
  service's version splits, retries, timeout and circuit breaker, its validation with the
  32-bit arithmetic of the code, and the store of validated specifications.
\<close>

section \<open>Data\<close>

record VersionWeight =
  vwVersion :: string
  Weight :: uint32

record CircuitBreaker =
  MaxConnections :: uint32
  MaxPendingRequests :: uint32
  MaxRequests :: uint32
  MaxRetries :: uint32

record Spec =
  Service :: string
  Splits :: "VersionWeight list"
  RetryOn :: string
  NumRetries :: uint32
  TimeoutMs :: uint32
  SpecCircuitBreaker :: CircuitBreaker

datatype routing_error =
    ErrServiceRequired
  | ErrNoSplits
  | ErrDuplicateVersion string
  | ErrWeightSum uint32
  | ErrNumRetries

section \<open>Operations\<close>

fun Validate_loop ::
    "VersionWeight list \<Rightarrow> (string, bool) gomap \<Rightarrow> uint32 \<Rightarrow> routing_error + uint32" where
  "Validate_loop [] seen tot = Inr tot"
| "Validate_loop (sp # rest) seen tot =
     (if go_get seen (vwVersion sp) = Some True then Inl (ErrDuplicateVersion (vwVersion sp))
      else Validate_loop rest (go_set (vwVersion sp) True seen) (tot + Weight sp))"

definition Validate :: "Spec \<Rightarrow> routing_error option" where
  "Validate s =
     (if Service s = [] then Some ErrServiceRequired
      else if length (Splits s) = 0 then Some ErrNoSplits
      else case Validate_loop (Splits s) [] 0 of
             Inl e \<Rightarrow> Some e
           | Inr tot \<Rightarrow>
               if tot \<noteq> 100 then Some (ErrWeightSum tot)
               else if RetryOn s \<noteq> [] \<and> NumRetries s = 0 then Some ErrNumRetries
               else None)"

record Store =
  specs :: "(string, Spec) gomap"

definition NewStore :: Store where
  "NewStore = \<lparr>specs = []\<rparr>"

definition Store_Set :: "Spec \<Rightarrow> Store \<Rightarrow> Store \<times> routing_error option" where
  "Store_Set spec s =
     (case Validate spec of
        Some err \<Rightarrow> (s, Some err)
      | None \<Rightarrow> (s\<lparr>specs := go_set (Service spec) spec (specs s)\<rparr>, None))"

definition Store_Get :: "string \<Rightarrow> Store \<Rightarrow> Spec option" where
  "Store_Get service s = go_get (specs s) service"

definition Store_Delete :: "string \<Rightarrow> Store \<Rightarrow> Store" where
  "Store_Delete service s = s\<lparr>specs := go_delete service (specs s)\<rparr>"

section \<open>Lemmas\<close>

text \<open>The weights of a specification, added as the code adds them and as integers.\<close>

definition word_total :: "Spec \<Rightarrow> uint32" where
  "word_total s = sum_list (map Weight (Splits s))"

definition true_total :: "Spec \<Rightarrow> nat" where
  "true_total s = sum_list (map (unat \<circ> Weight) (Splits s))"

lemma Validate_loop_Inr:
  "Validate_loop sps seen tot = Inr n \<longleftrightarrow>
     distinct (map vwVersion sps) \<and> vwVersion ` set sps \<inter> {v. go_get seen v = Some True} = {}
     \<and> n = tot + sum_list (map Weight sps)"
proof (induction sps seen tot rule: Validate_loop.induct)
  case (2 sp rest seen tot)
  have "{v. go_get (go_set (vwVersion sp) True seen) v = Some True}
      = insert (vwVersion sp) {v. go_get seen v = Some True}" by auto
  with 2 show ?case by (auto simp: algebra_simps)
qed auto

lemma Validate_loop_Inl:
  "Validate_loop sps seen tot = Inl e \<Longrightarrow>
     \<exists>v. e = ErrDuplicateVersion v \<and> v \<in> set (map vwVersion sps)
       \<and> (go_get seen v = Some True \<or> 2 \<le> count_list (map vwVersion sps) v)"
proof (induction sps seen tot rule: Validate_loop.induct)
  case (2 sp rest seen tot)
  show ?case
  proof (cases "go_get seen (vwVersion sp) = Some True")
    case False
    with 2 obtain v where v: "e = ErrDuplicateVersion v" "v \<in> set (map vwVersion rest)"
      "v = vwVersion sp \<or> go_get seen v = Some True \<or> 2 \<le> count_list (map vwVersion rest) v"
      by (auto split: if_splits)
    then have "1 \<le> count_list (map vwVersion rest) v"
      using count_list_0_iff [of "map vwVersion rest" v] by linarith
    with v show ?thesis by auto
  qed (use 2 in auto)
qed simp

lemma Validate_loop_distinct:
  "distinct (map vwVersion (Splits s)) \<Longrightarrow> Validate_loop (Splits s) [] 0 = Inr (word_total s)"
  by (simp add: Validate_loop_Inr word_total_def)

lemma Validate_loop_duplicate:
  "\<not> distinct (map vwVersion (Splits s)) \<Longrightarrow>
   \<exists>v. Validate_loop (Splits s) [] 0 = Inl (ErrDuplicateVersion v)
     \<and> 2 \<le> count_list (map vwVersion (Splits s)) v"
proof -
  assume "\<not> distinct (map vwVersion (Splits s))"
  then obtain e where "Validate_loop (Splits s) [] 0 = Inl e"
    by (cases "Validate_loop (Splits s) [] 0") (simp_all add: Validate_loop_Inr)
  then show ?thesis using Validate_loop_Inl by fastforce
qed

lemma Validate_None:
  "Validate s = None \<longleftrightarrow>
     Service s \<noteq> [] \<and> Splits s \<noteq> [] \<and> distinct (map vwVersion (Splits s))
     \<and> word_total s = 100 \<and> (RetryOn s = [] \<or> NumRetries s \<noteq> 0)"
  using Validate_loop_duplicate [of s]
  by (cases "distinct (map vwVersion (Splits s))")
    (auto simp: Validate_def Validate_loop_distinct)

lemma sum_list_word:
  "sum_list (map Weight sps) = (of_nat (sum_list (map (unat \<circ> Weight) sps)) :: uint32)"
  by (induction sps) simp_all

lemma unat_word_total: "unat (word_total s) = true_total s mod 2 ^ 32"
  by (simp add: word_total_def true_total_def sum_list_word unat_of_nat)

subsection \<open>The store\<close>

definition store_inv :: "Store \<Rightarrow> bool" where
  "store_inv s \<longleftrightarrow> go_ok (specs s) \<and> list_all (\<lambda>(svc, sp). Service sp = svc \<and> Validate sp = None) (specs s)"

datatype store_op = OpSet Spec | OpDelete string

primrec store_step :: "store_op \<Rightarrow> Store \<Rightarrow> Store" where
  "store_step (OpSet spec) s = fst (Store_Set spec s)"
| "store_step (OpDelete service) s = Store_Delete service s"

text \<open>The writes a call makes to the underlying map: none for a rejected specification.\<close>

primrec store_writes :: "store_op \<Rightarrow> (string \<times> Spec option) list" where
  "store_writes (OpSet spec) = (if Validate spec = None then [(Service spec, Some spec)] else [])"
| "store_writes (OpDelete service) = [(service, None)]"

lemma store_inv_NewStore [inv_intros]: "store_inv NewStore"
  by (simp add: store_inv_def NewStore_def)

lemma store_inv_step [inv_intros]: "store_inv s \<Longrightarrow> store_inv (store_step x s)"
  by (cases x)
    (auto simp: store_inv_def Store_Set_def Store_Delete_def list_all_iff set_go_set set_go_delete
      split: option.splits)

lemma store_inv_fold: "store_inv s \<Longrightarrow> store_inv (fold store_step xs s)"
  by (induction xs arbitrary: s) (auto intro: inv_intros)

lemma store_inv_Get: "store_inv s \<Longrightarrow> Store_Get svc s = Some sp \<Longrightarrow> Service sp = svc \<and> Validate sp = None"
  by (auto simp: store_inv_def Store_Get_def list_all_iff dest!: go_get_mem)

lemma specs_store_step:
  "specs (store_step x s) =
     fold (\<lambda>(k, w). case w of None \<Rightarrow> go_delete k | Some v \<Rightarrow> go_set k v) (store_writes x) (specs s)"
  by (cases x) (auto simp: Store_Set_def Store_Delete_def split: option.splits)

lemma specs_fold_step:
  "specs (fold store_step xs s) =
     fold (\<lambda>(k, w). case w of None \<Rightarrow> go_delete k | Some v \<Rightarrow> go_set k v)
       (concat (map store_writes xs)) (specs s)"
  by (induction xs arbitrary: s) (simp_all add: specs_store_step)

section \<open>Properties\<close>

definition sample_spec :: "string \<Rightarrow> (string \<times> uint32) list \<Rightarrow> Spec" where
  "sample_spec svc splits =
     \<lparr>Service = svc, Splits = map (\<lambda>(v, w). \<lparr>vwVersion = v, Weight = w\<rparr>) splits, RetryOn = [],
      NumRetries = 0, TimeoutMs = 0,
      SpecCircuitBreaker = \<lparr>MaxConnections = 0, MaxPendingRequests = 0, MaxRequests = 0, MaxRetries = 0\<rparr>\<rparr>"

text \<open>C20. Functional behaviour of \<open>Validate\<close> on every branch: it accepts exactly the specifications
  with a service, at least one split, no repeated version, weights whose 32-bit sum is 100
  and a positive retry count wherever retries are on, and it reports the first check that
  fails, naming a version that really is repeated or the sum it computed.\<close>

theorem Validate_spec:
  "case Validate s of
     None \<Rightarrow> Service s \<noteq> [] \<and> Splits s \<noteq> [] \<and> distinct (map vwVersion (Splits s))
       \<and> word_total s = 100 \<and> \<not> (RetryOn s \<noteq> [] \<and> NumRetries s = 0)
   | Some ErrServiceRequired \<Rightarrow> Service s = []
   | Some ErrNoSplits \<Rightarrow> Service s \<noteq> [] \<and> Splits s = []
   | Some (ErrDuplicateVersion v) \<Rightarrow>
       Service s \<noteq> [] \<and> 2 \<le> count_list (map vwVersion (Splits s)) v
   | Some (ErrWeightSum w) \<Rightarrow>
       Service s \<noteq> [] \<and> Splits s \<noteq> [] \<and> distinct (map vwVersion (Splits s)) \<and> w = word_total s \<and> w \<noteq> 100
   | Some ErrNumRetries \<Rightarrow>
       Service s \<noteq> [] \<and> Splits s \<noteq> [] \<and> distinct (map vwVersion (Splits s)) \<and> word_total s = 100
       \<and> RetryOn s \<noteq> [] \<and> NumRetries s = 0"
proof (cases "distinct (map vwVersion (Splits s))")
  case True
  then show ?thesis by (auto simp: Validate_def Validate_loop_distinct)
next
  case False
  with Validate_loop_duplicate obtain v where
    "Validate_loop (Splits s) [] 0 = Inl (ErrDuplicateVersion v)"
    "2 \<le> count_list (map vwVersion (Splits s)) v" by blast
  then show ?thesis by (auto simp: Validate_def)
qed

text \<open>C29. Bounds: as long as the weights of an accepted specification do not overflow 32 bits when
  added as integers, they add up to exactly 100.\<close>

theorem Validate_sum_100:
  assumes "Validate s = None" and "true_total s < 2 ^ 32"
  shows "true_total s = 100"
proof -
  have "unat (word_total s) = true_total s" using assms(2) by (simp add: unat_word_total)
  moreover have "word_total s = 100" using assms(1) by (simp add: Validate_None)
  ultimately show ?thesis by simp
qed

theorem Validate_sum_100_witness:
  "true_total (sample_spec ''backend'' [(''v1'', 90), (''v2'', 10)]) = 100"
  by (rule Validate_sum_100)
    (simp_all add: Validate_None sample_spec_def word_total_def true_total_def)

text \<open>The sum wraps around: a specification whose weights add up to 4294967396 is accepted.\<close>

lemma Validate_wraps:
  "Validate (sample_spec ''backend'' [(''v1'', 4294967295), (''v2'', 101)]) = None
   \<and> true_total (sample_spec ''backend'' [(''v1'', 4294967295), (''v2'', 101)]) = 4294967396"
  by (simp add: Validate_None sample_spec_def word_total_def true_total_def)

text \<open>C21. The store after any sequence of \<open>Set\<close> and \<open>Delete\<close> calls: a lookup returns the last
  accepted specification for its service unless a later call deleted it, rejected calls
  change nothing, and whatever is returned is valid and filed under its own service.\<close>

theorem store_history:
  fixes ops
  defines "st \<equiv> fold store_step ops NewStore"
  shows "Store_Get svc st = (case map_of (rev (concat (map store_writes ops))) svc of None \<Rightarrow> None | Some w \<Rightarrow> w)
    \<and> (case Store_Get svc st of None \<Rightarrow> True | Some spec \<Rightarrow> Service spec = svc \<and> Validate spec = None)"
proof
  show "Store_Get svc st = (case map_of (rev (concat (map store_writes ops))) svc of None \<Rightarrow> None | Some w \<Rightarrow> w)"
    unfolding st_def Store_Get_def specs_fold_step
    by (subst gm.get_fold) (simp_all add: NewStore_def split: option.split)
  have "store_inv st" unfolding st_def by (intro store_inv_fold inv_intros)
  then show "case Store_Get svc st of None \<Rightarrow> True | Some spec \<Rightarrow> Service spec = svc \<and> Validate spec = None"
    by (auto split: option.splits dest: store_inv_Get)
qed

end
