(* ===== verification/Mesh_Snapshot.thy ===== *)
theory Mesh_Snapshot
  imports Mesh_Registry Mesh_Routing
begin

text \<open>
  The configuration builder, \<open>internal/xds/snapshot.go\<close>: the Envoy resources it
  constructs, one definition per function of the file, and the theorems on the snapshots
  it returns.

  The Envoy protocol buffers are data: each record has the fields that the code sets. The
  packages \<open>go-control-plane\<close> and \<open>anypb\<close> are not part of the repository; their
  functions are the fields of the parameter \<open>xds_lib\<close>, and what the code relies on is
  stated as named hypotheses (\<open>lib_packs\<close>, \<open>lib_snapshots\<close>, \<open>lib_consistency\<close>).
\<close>

section \<open>Envoy resources\<close>

datatype ApiVersion = ApiVersion_V3

datatype ConfigSource = ConfigSource_Ads ApiVersion

datatype DiscoveryType = Cluster_EDS

datatype LbPolicy = Cluster_ROUND_ROBIN

record Thresholds =
  thMaxConnections :: "uint32 option"
  thMaxPendingRequests :: "uint32 option"
  thMaxRequests :: "uint32 option"
  thMaxRetries :: "uint32 option"

record Cluster =
  cName :: string
  cConnectTimeout :: duration
  cDiscoveryType :: DiscoveryType
  cEdsConfig :: ConfigSource
  cLbPolicy :: LbPolicy
  cCircuitBreakers :: "Thresholds list option"

record SocketAddress =
  saAddress :: string
  saPortValue :: uint32

record ClusterLoadAssignment =
  claClusterName :: string
  claEndpoints :: "SocketAddress list list"

record ClusterWeight =
  cwName :: string
  cwWeight :: uint32

datatype ClusterSpecifier =
    RouteAction_Cluster string
  | RouteAction_WeightedClusters "ClusterWeight list"

record RetryPolicy =
  rpRetryOn :: string
  rpNumRetries :: uint32

record RouteAction =
  raClusterSpecifier :: ClusterSpecifier
  raTimeout :: "duration option"
  raRetryPolicy :: "RetryPolicy option"

record Route =
  rtPrefix :: string
  rtAction :: RouteAction

record VirtualHost =
  vhName :: string
  vhDomains :: "string list"
  vhRoutes :: "Route list"

record RouteConfiguration =
  rcName :: string
  rcVirtualHosts :: "VirtualHost list"

record 'any TypedFilter =
  flName :: string
  flTypedConfig :: 'any

record 'any HttpConnectionManager =
  hcmStatPrefix :: string
  hcmRouteConfigName :: string
  hcmConfigSource :: ConfigSource
  hcmHttpFilters :: "'any TypedFilter list"

record 'any Listener =
  lnName :: string
  lnAddress :: SocketAddress
  lnFilterChains :: "'any TypedFilter list list"

datatype 'any Resource =
    ResCluster Cluster
  | ResEndpoint ClusterLoadAssignment
  | ResListener "'any Listener"
  | ResRoute RouteConfiguration

datatype resource_type = ClusterType | EndpointType | ListenerType | RouteType

section \<open>The libraries the builder calls\<close>

type_synonym lib_error = string

record ('any, 'snap) xds_lib =
  anypb_New_Router :: "lib_error + 'any"
  anypb_New_HCM :: "'any HttpConnectionManager \<Rightarrow> lib_error + 'any"
  NewSnapshot :: "string \<Rightarrow> (resource_type, 'any Resource list) gomap \<Rightarrow> lib_error + 'snap"
  Consistent :: "'snap \<Rightarrow> lib_error option"
  GetResources :: "'snap \<Rightarrow> resource_type \<Rightarrow> (string, 'any Resource) gomap"
  GetVersion :: "'snap \<Rightarrow> resource_type \<Rightarrow> string"

section \<open>Operations\<close>

definition basePort :: int where "basePort = 20000"

definition xds_staleAfter :: duration where "xds_staleAfter = 15 * Second"

definition xds_Namespace :: string where "xds_Namespace = ''default''"

definition noVersionSplit :: "VersionWeight list" where
  "noVersionSplit = [\<lparr>vwVersion = [], Weight = 100\<rparr>]"

definition emptyCircuitBreaker :: CircuitBreaker where
  "emptyCircuitBreaker =
     \<lparr>MaxConnections = 0, MaxPendingRequests = 0, MaxRequests = 0, MaxRetries = 0\<rparr>"

definition emptySpec :: Spec where
  "emptySpec = \<lparr>Service = [], Splits = [], RetryOn = [], NumRetries = 0, TimeoutMs = 0,
     SpecCircuitBreaker = emptyCircuitBreaker\<rparr>"

definition clusterName :: "string \<Rightarrow> string \<Rightarrow> string" where
  "clusterName serviceName version =
     (if version = [] then serviceName else serviceName @ ''::'' @ version)"

fun filterByVersion_loop :: "Instance list \<Rightarrow> string \<Rightarrow> Instance list \<Rightarrow> Instance list" where
  "filterByVersion_loop [] version out = out"
| "filterByVersion_loop (inst # rest) version out =
     (if Version inst = version then filterByVersion_loop rest version (out @ [inst])
      else filterByVersion_loop rest version out)"

definition filterByVersion :: "Instance list \<Rightarrow> string \<Rightarrow> Instance list" where
  "filterByVersion instances version = filterByVersion_loop instances version []"

definition positive :: "uint32 \<Rightarrow> uint32 option" where
  "positive n = (if n > 0 then Some n else None)"

definition buildCluster :: "string \<Rightarrow> CircuitBreaker \<Rightarrow> Cluster" where
  "buildCluster name cb =
     (let c = \<lparr>cName = name, cConnectTimeout = 2 * Second, cDiscoveryType = Cluster_EDS,
               cEdsConfig = ConfigSource_Ads ApiVersion_V3, cLbPolicy = Cluster_ROUND_ROBIN,
               cCircuitBreakers = None\<rparr>
      in if cb \<noteq> emptyCircuitBreaker
         then c\<lparr>cCircuitBreakers := Some
                [\<lparr>thMaxConnections = positive (MaxConnections cb),
                  thMaxPendingRequests = positive (MaxPendingRequests cb),
                  thMaxRequests = positive (MaxRequests cb),
                  thMaxRetries = positive (MaxRetries cb)\<rparr>]\<rparr>
         else c)"

definition lbEndpoint :: "Instance \<Rightarrow> SocketAddress" where
  "lbEndpoint inst = \<lparr>saAddress = Address inst, saPortValue = word_of_int (Port inst)\<rparr>"

definition buildClusterLoadAssignment :: "string \<Rightarrow> Instance list \<Rightarrow> ClusterLoadAssignment" where
  "buildClusterLoadAssignment name instances =
     \<lparr>claClusterName = name, claEndpoints = [map lbEndpoint instances]\<rparr>"

definition buildRouteConfiguration ::
    "string \<Rightarrow> string \<Rightarrow> ClusterWeight list \<Rightarrow> Spec \<Rightarrow> RouteConfiguration" where
  "buildRouteConfiguration routeConfigName virtualHostName weightedClusters spec =
     (let specifier =
            (case weightedClusters of
               [w] \<Rightarrow> if cwWeight w = 100 then RouteAction_Cluster (cwName w)
                      else RouteAction_WeightedClusters weightedClusters
             | _ \<Rightarrow> RouteAction_WeightedClusters weightedClusters);
          action = \<lparr>raClusterSpecifier = specifier, raTimeout = None, raRetryPolicy = None\<rparr>;
          action = (if TimeoutMs spec > 0
                    then action\<lparr>raTimeout := Some (int64 (uint (TimeoutMs spec) * Millisecond))\<rparr>
                    else action);
          action = (if RetryOn spec \<noteq> []
                    then action\<lparr>raRetryPolicy :=
                           Some \<lparr>rpRetryOn = RetryOn spec, rpNumRetries = NumRetries spec\<rparr>\<rparr>
                    else action)
      in \<lparr>rcName = routeConfigName,
          rcVirtualHosts = [\<lparr>vhName = virtualHostName, vhDomains = [''*''],
                             vhRoutes = [\<lparr>rtPrefix = ''/'', rtAction = action\<rparr>]\<rparr>]\<rparr>)"

definition buildListener ::
    "('any, 'snap) xds_lib \<Rightarrow> string \<Rightarrow> uint32 \<Rightarrow> string \<Rightarrow> lib_error + 'any Listener" where
  "buildListener lib serviceName port routeConfigName =
     (case anypb_New_Router lib of
        Inl err \<Rightarrow> Inl err
      | Inr router \<Rightarrow>
          let hcm = \<lparr>hcmStatPrefix = serviceName, hcmRouteConfigName = routeConfigName,
                     hcmConfigSource = ConfigSource_Ads ApiVersion_V3,
                     hcmHttpFilters = [\<lparr>flName = ''envoy.filters.http.router'', flTypedConfig = router\<rparr>]\<rparr>
          in case anypb_New_HCM lib hcm of
               Inl err \<Rightarrow> Inl err
             | Inr hcmAny \<Rightarrow>
                 Inr \<lparr>lnName = serviceName @ ''-listener'',
                      lnAddress = \<lparr>saAddress = ''0.0.0.0'', saPortValue = port\<rparr>,
                      lnFilterChains =
                        [[\<lparr>flName = ''envoy.filters.network.http_connection_manager'',
                           flTypedConfig = hcmAny\<rparr>]]\<rparr>)"

text \<open>
  The reads that \<open>BuildSnapshot\<close> makes while other goroutines run: each takes its lock
  separately. \<open>obs svc version\<close> is the registry and the clock that the call of
  \<open>HealthyInstances\<close> for that split meets, and \<open>routes svc\<close> the store that the lookup
  for that service meets; \<open>None\<close> is the nil store.
\<close>

type_synonym observations = "string \<Rightarrow> string \<Rightarrow> InMemory \<times> time"

fun split_loop ::
    "observations \<Rightarrow> string \<Rightarrow> Spec \<Rightarrow> VersionWeight list
      \<Rightarrow> 'any Resource list \<Rightarrow> 'any Resource list \<Rightarrow> ClusterWeight list
      \<Rightarrow> 'any Resource list \<times> 'any Resource list \<times> ClusterWeight list" where
  "split_loop obs svc spec [] clusters endpoints weighted = (clusters, endpoints, weighted)"
| "split_loop obs svc spec (split # rest) clusters endpoints weighted =
     (let name = clusterName svc (vwVersion split);
          clusters = clusters @ [ResCluster (buildCluster name (SpecCircuitBreaker spec))];
          (r, now) = obs svc (vwVersion split);
          instances = HealthyInstances now xds_Namespace svc xds_staleAfter r;
          instances = (if vwVersion split \<noteq> [] then filterByVersion instances (vwVersion split)
                       else instances);
          endpoints = endpoints @ [ResEndpoint (buildClusterLoadAssignment name instances)];
          weighted = weighted @ [\<lparr>cwName = name, cwWeight = Weight split\<rparr>]
      in split_loop obs svc spec rest clusters endpoints weighted)"

datatype snapshot_error =
    ErrBuildListener string lib_error
  | ErrConstruct lib_error
  | ErrInconsistent lib_error

definition lookupSpec :: "(string \<Rightarrow> Store) option \<Rightarrow> string \<Rightarrow> Spec option" where
  "lookupSpec routes svc =
     (case routes of None \<Rightarrow> None | Some st \<Rightarrow> Store_Get svc (st svc))"

fun service_loop ::
    "('any, 'snap) xds_lib \<Rightarrow> (string \<Rightarrow> Store) option \<Rightarrow> observations \<Rightarrow> int \<Rightarrow> string list
      \<Rightarrow> 'any Resource list \<Rightarrow> 'any Resource list \<Rightarrow> 'any Resource list \<Rightarrow> 'any Resource list
      \<Rightarrow> snapshot_error + 'any Resource list \<times> 'any Resource list \<times> 'any Resource list \<times> 'any Resource list" where
  "service_loop lib routes obs i [] clusters endpoints listeners routeConfigs =
     Inr (clusters, endpoints, listeners, routeConfigs)"
| "service_loop lib routes obs i (svc # rest) clusters endpoints listeners routeConfigs =
     (let port = word_of_int (basePort + i);
          found = lookupSpec routes svc;
          spec = (case found of None \<Rightarrow> emptySpec | Some s \<Rightarrow> s);
          splits = (case found of None \<Rightarrow> noVersionSplit | Some s \<Rightarrow> Splits s);
          (clusters, endpoints, weighted) = split_loop obs svc spec splits clusters endpoints [];
          routeConfigName = svc @ ''-route'';
          routeConfigs =
            routeConfigs @ [ResRoute (buildRouteConfiguration routeConfigName svc weighted spec)]
      in case buildListener lib svc port routeConfigName of
           Inl err \<Rightarrow> Inl (ErrBuildListener svc err)
         | Inr listener \<Rightarrow>
             service_loop lib routes obs (i + 1) rest clusters endpoints
               (listeners @ [ResListener listener]) routeConfigs)"

definition BuildSnapshot ::
    "('any, 'snap) xds_lib \<Rightarrow> InMemory \<Rightarrow> (string \<Rightarrow> Store) option \<Rightarrow> observations \<Rightarrow> string
      \<Rightarrow> snapshot_error + 'snap" where
  "BuildSnapshot lib r routes obs version =
     (let services = sort (ListServices xds_Namespace r) in
      case service_loop lib routes obs 0 services [] [] [] [] of
        Inl err \<Rightarrow> Inl err
      | Inr (clusters, endpoints, listeners, routeConfigs) \<Rightarrow>
          (case NewSnapshot lib version
                  [(ClusterType, clusters), (EndpointType, endpoints),
                   (ListenerType, listeners), (RouteType, routeConfigs)] of
             Inl err \<Rightarrow> Inl (ErrConstruct err)
           | Inr snap \<Rightarrow>
               (case Consistent lib snap of
                  Some err \<Rightarrow> Inl (ErrInconsistent err)
                | None \<Rightarrow> Inr snap)))"

section \<open>What the loops build\<close>

text \<open>The resources of one service, as functions of the reads made for it.\<close>

definition spec_of :: "(string \<Rightarrow> Store) option \<Rightarrow> string \<Rightarrow> Spec" where
  "spec_of routes svc = (case lookupSpec routes svc of None \<Rightarrow> emptySpec | Some s \<Rightarrow> s)"

definition splits_of :: "(string \<Rightarrow> Store) option \<Rightarrow> string \<Rightarrow> VersionWeight list" where
  "splits_of routes svc = (case lookupSpec routes svc of None \<Rightarrow> noVersionSplit | Some s \<Rightarrow> Splits s)"

definition split_instances :: "observations \<Rightarrow> string \<Rightarrow> string \<Rightarrow> Instance list" where
  "split_instances obs svc v =
     filter (\<lambda>i. v = [] \<or> Version i = v)
       (HealthyInstances (snd (obs svc v)) xds_Namespace svc xds_staleAfter (fst (obs svc v)))"

definition service_clusters :: "(string \<Rightarrow> Store) option \<Rightarrow> string \<Rightarrow> Cluster list" where
  "service_clusters routes svc =
     map (\<lambda>sp. buildCluster (clusterName svc (vwVersion sp)) (SpecCircuitBreaker (spec_of routes svc)))
       (splits_of routes svc)"

definition service_endpoints ::
    "(string \<Rightarrow> Store) option \<Rightarrow> observations \<Rightarrow> string \<Rightarrow> ClusterLoadAssignment list" where
  "service_endpoints routes obs svc =
     map (\<lambda>sp. buildClusterLoadAssignment (clusterName svc (vwVersion sp))
                (split_instances obs svc (vwVersion sp)))
       (splits_of routes svc)"

definition service_weights :: "(string \<Rightarrow> Store) option \<Rightarrow> string \<Rightarrow> ClusterWeight list" where
  "service_weights routes svc =
     map (\<lambda>sp. \<lparr>cwName = clusterName svc (vwVersion sp), cwWeight = Weight sp\<rparr>) (splits_of routes svc)"

definition service_route :: "(string \<Rightarrow> Store) option \<Rightarrow> string \<Rightarrow> RouteConfiguration" where
  "service_route routes svc =
     buildRouteConfiguration (svc @ ''-route'') svc (service_weights routes svc) (spec_of routes svc)"

definition listener_port :: "int \<Rightarrow> uint32" where
  "listener_port i = word_of_int (basePort + i)"

lemma filterByVersion_loop_eq:
  "filterByVersion_loop is v out = out @ filter (\<lambda>i. Version i = v) is"
  by (induction "is" v out rule: filterByVersion_loop.induct) auto

lemma filterByVersion_eq: "filterByVersion is v = filter (\<lambda>i. Version i = v) is"
  by (simp add: filterByVersion_def filterByVersion_loop_eq)

lemma split_loop_eq:
  "split_loop obs svc spec sps cs es ws =
     (cs @ map (\<lambda>sp. ResCluster (buildCluster (clusterName svc (vwVersion sp)) (SpecCircuitBreaker spec))) sps,
      es @ map (\<lambda>sp. ResEndpoint (buildClusterLoadAssignment (clusterName svc (vwVersion sp))
                 (split_instances obs svc (vwVersion sp)))) sps,
      ws @ map (\<lambda>sp. \<lparr>cwName = clusterName svc (vwVersion sp), cwWeight = Weight sp\<rparr>) sps)"
  by (induction obs svc spec sps cs es ws rule: split_loop.induct)
    (auto simp: split_instances_def filterByVersion_eq Let_def split: prod.splits)

lemma service_loop_Cons:
  "service_loop lib routes obs i (svc # rest) cs es ls rcs =
     (case buildListener lib svc (listener_port i) (svc @ ''-route'') of
        Inl err \<Rightarrow> Inl (ErrBuildListener svc err)
      | Inr l \<Rightarrow> service_loop lib routes obs (i + 1) rest
          (cs @ map ResCluster (service_clusters routes svc))
          (es @ map ResEndpoint (service_endpoints routes obs svc))
          (ls @ [ResListener l]) (rcs @ [ResRoute (service_route routes svc)]))"
  by (simp add: split_loop_eq Let_def service_clusters_def service_endpoints_def service_route_def
      service_weights_def spec_of_def splits_of_def listener_port_def comp_def split: sum.split)

declare service_loop.simps(2) [simp del]

fun built_listeners :: "('any, 'snap) xds_lib \<Rightarrow> int \<Rightarrow> string list \<Rightarrow> 'any Listener list \<Rightarrow> bool" where
  "built_listeners lib i (svc # ss) (l # ls) \<longleftrightarrow>
     buildListener lib svc (listener_port i) (svc @ ''-route'') = Inr l \<and> built_listeners lib (i + 1) ss ls"
| "built_listeners lib i ss ls \<longleftrightarrow> ss = [] \<and> ls = []"

lemma built_listeners_nth:
  "built_listeners lib i ss ls \<longleftrightarrow> length ls = length ss
     \<and> (\<forall>j < length ss. buildListener lib (ss ! j) (listener_port (i + int j)) (ss ! j @ ''-route'') = Inr (ls ! j))"
proof (induction lib i ss ls rule: built_listeners.induct)
  case (1 lib i svc ss l ls)
  have "(\<forall>j < Suc (length ss). P j) \<longleftrightarrow> P 0 \<and> (\<forall>j < length ss. P (Suc j))" for P
    by (auto simp: less_Suc_eq_0_disj)
  with 1 show ?case by (auto simp: add.assoc)
qed auto

lemma service_loop_Inr:
  "service_loop lib routes obs i ss cs es ls rcs = Inr (cs', es', ls', rcs') \<longleftrightarrow>
     cs' = cs @ map ResCluster (concat (map (service_clusters routes) ss))
     \<and> es' = es @ map ResEndpoint (concat (map (service_endpoints routes obs) ss))
     \<and> rcs' = rcs @ map (ResRoute \<circ> service_route routes) ss
     \<and> (\<exists>lns. ls' = ls @ map ResListener lns \<and> built_listeners lib i ss lns)"
proof (induction ss arbitrary: i cs es ls rcs)
  case Nil
  have "built_listeners lib i [] lns \<longleftrightarrow> lns = []" for lns by (cases lns) auto
  then show ?case by auto
next
  case (Cons svc ss)
  have inv: "(\<exists>lns. P lns \<and> built_listeners lib i (svc # ss) lns) \<longleftrightarrow>
      (\<exists>l lns. buildListener lib svc (listener_port i) (svc @ ''-route'') = Inr l
         \<and> P (l # lns) \<and> built_listeners lib (i + 1) ss lns)" for P
  proof -
    have "built_listeners lib i (svc # ss) lns \<Longrightarrow> \<exists>l lns'. lns = l # lns'" for lns
      by (cases lns) auto
    then show ?thesis by force
  qed
  show ?case
    by (cases "buildListener lib svc (listener_port i) (svc @ ''-route'')")
      (auto simp: service_loop_Cons Cons.IH inv)
qed

lemma service_loop_Inl:
  "service_loop lib routes obs i ss cs es ls rcs = Inl err \<Longrightarrow>
     \<exists>svc port e. svc \<in> set ss \<and> buildListener lib svc port (svc @ ''-route'') = Inl e \<and> err = ErrBuildListener svc e"
proof (induction ss arbitrary: i cs es ls rcs)
  case (Cons svc ss)
  then show ?case
    by (fastforce simp: service_loop_Cons split: sum.splits)
qed simp

section \<open>Hypotheses on the libraries\<close>

primrec resource_name :: "'any Resource \<Rightarrow> string" where
  "resource_name (ResCluster c) = cName c"
| "resource_name (ResEndpoint e) = claClusterName e"
| "resource_name (ResListener l) = lnName l"
| "resource_name (ResRoute rc) = rcName rc"

text \<open>Packing a message succeeds when all its strings are valid, validity being kept by an ASCII suffix,
  and the route configuration that an HTTP connection manager names can be read back from the
  packed message.\<close>

definition hcm_strings :: "'any HttpConnectionManager \<Rightarrow> string list" where
  "hcm_strings h = [hcmStatPrefix h, hcmRouteConfigName h] @ map flName (hcmHttpFilters h)"

definition lib_packs ::
    "('any, 'snap) xds_lib \<Rightarrow> ('any \<Rightarrow> string option) \<Rightarrow> (string \<Rightarrow> bool) \<Rightarrow> bool" where
  "lib_packs lib rds_name valid \<longleftrightarrow>
     valid ''envoy.filters.http.router'' \<and> (\<forall>svc. valid svc \<longrightarrow> valid (svc @ ''-route''))
     \<and> (\<exists>a. anypb_New_Router lib = Inr a)
     \<and> (\<forall>h. list_all valid (hcm_strings h) \<longrightarrow> (\<exists>a. anypb_New_HCM lib h = Inr a))
     \<and> (\<forall>h a. anypb_New_HCM lib h = Inr a \<longrightarrow> rds_name a = Some (hcmRouteConfigName h))"

text \<open>A snapshot that is given all four resource types can be constructed; it carries the version for
  every type and indexes the resources of each type by name, the last one of a name winning.\<close>

definition indexed :: "('any, 'snap) xds_lib \<Rightarrow> 'snap \<Rightarrow> string
    \<Rightarrow> (resource_type, 'any Resource list) gomap \<Rightarrow> bool" where
  "indexed lib s v rs \<longleftrightarrow>
     (\<forall>t. GetVersion lib s t = v) \<and> (\<forall>t. go_ok (GetResources lib s t))
     \<and> (\<forall>t n. go_get (GetResources lib s t) n =
          map_of (rev (map (\<lambda>x. (resource_name x, x)) (case go_get rs t of None \<Rightarrow> [] | Some l \<Rightarrow> l))) n)"

definition lib_snapshots :: "('any, 'snap) xds_lib \<Rightarrow> bool" where
  "lib_snapshots lib \<longleftrightarrow>
     (\<forall>v rs. (\<forall>t. go_get rs t \<noteq> None) \<longrightarrow> (\<exists>s. NewSnapshot lib v rs = Inr s \<and> indexed lib s v rs))"

text \<open>The documented check of \<open>Consistent\<close>: the endpoint resources are exactly those that the
  EDS clusters name, and the route resources exactly those that the listeners name; an empty
  route name does not count.\<close>

definition resource_names :: "('any, 'snap) xds_lib \<Rightarrow> 'snap \<Rightarrow> resource_type \<Rightarrow> string set" where
  "resource_names lib s t = fst ` set (GetResources lib s t)"

definition rds_references :: "('any \<Rightarrow> string option) \<Rightarrow> 'any Listener \<Rightarrow> string set" where
  "rds_references rds_name l =
     {n. \<exists>chain \<in> set (lnFilterChains l). \<exists>f \<in> set chain. rds_name (flTypedConfig f) = Some n \<and> n \<noteq> []}"

definition eds_references :: "('any, 'snap) xds_lib \<Rightarrow> 'snap \<Rightarrow> string set" where
  "eds_references lib s =
     {cName c | c. ResCluster c \<in> snd ` set (GetResources lib s ClusterType) \<and> cDiscoveryType c = Cluster_EDS}"

definition lib_consistency :: "('any, 'snap) xds_lib \<Rightarrow> ('any \<Rightarrow> string option) \<Rightarrow> bool" where
  "lib_consistency lib rds_name \<longleftrightarrow>
     (\<forall>s. Consistent lib s = None \<longleftrightarrow>
        resource_names lib s EndpointType = eds_references lib s
        \<and> resource_names lib s RouteType =
            \<Union> {rds_references rds_name l | l. ResListener l \<in> snd ` set (GetResources lib s ListenerType)})"

section \<open>The snapshot of a successful build\<close>

definition services_of :: "InMemory \<Rightarrow> string list" where
  "services_of r = sort (ListServices xds_Namespace r)"

definition built_clusters :: "InMemory \<Rightarrow> (string \<Rightarrow> Store) option \<Rightarrow> Cluster list" where
  "built_clusters r routes = concat (map (service_clusters routes) (services_of r))"

definition built_endpoints ::
    "InMemory \<Rightarrow> (string \<Rightarrow> Store) option \<Rightarrow> observations \<Rightarrow> ClusterLoadAssignment list" where
  "built_endpoints r routes obs = concat (map (service_endpoints routes obs) (services_of r))"

definition snapshot_input :: "InMemory \<Rightarrow> (string \<Rightarrow> Store) option \<Rightarrow> observations
    \<Rightarrow> 'any Listener list \<Rightarrow> (resource_type, 'any Resource list) gomap" where
  "snapshot_input r routes obs lns =
     [(ClusterType, map ResCluster (built_clusters r routes)),
      (EndpointType, map ResEndpoint (built_endpoints r routes obs)),
      (ListenerType, map ResListener lns),
      (RouteType, map (ResRoute \<circ> service_route routes) (services_of r))]"

lemma snapshot_input_types: "\<forall>t. go_get (snapshot_input r routes obs lns) t \<noteq> None"
proof
  fix t show "go_get (snapshot_input r routes obs lns) t \<noteq> None"
    by (cases t) (simp_all add: snapshot_input_def)
qed

lemma services_of_eq: "reg_inv r \<Longrightarrow> services_of r = ListServices xds_Namespace r"
  using ListServices_strict [of r xds_Namespace] by (simp add: services_of_def strict_sorted_iff sorted_sort_id)

lemma BuildSnapshot_Inr:
  "BuildSnapshot lib r routes obs v = Inr s \<longleftrightarrow>
     (\<exists>lns. built_listeners lib 0 (services_of r) lns
        \<and> NewSnapshot lib v (snapshot_input r routes obs lns) = Inr s \<and> Consistent lib s = None)"
proof (cases "service_loop lib routes obs 0 (services_of r) [] [] [] []")
  case (Inl e)
  then have "\<not> built_listeners lib 0 (services_of r) lns" for lns
    using service_loop_Inr [of lib routes obs 0 "services_of r" "[]" "[]" "[]" "[]"] by fastforce
  with Inl show ?thesis by (simp add: BuildSnapshot_def services_of_def)
next
  case (Inr res)
  then obtain lns where res: "built_listeners lib 0 (services_of r) lns"
    "res = (map ResCluster (built_clusters r routes), map ResEndpoint (built_endpoints r routes obs),
       map ResListener lns, map (ResRoute \<circ> service_route routes) (services_of r))"
    by (cases res) (auto simp: service_loop_Inr built_clusters_def built_endpoints_def)
  have uniq: "built_listeners lib 0 (services_of r) ls \<longleftrightarrow> ls = lns" for ls
    using res(1) by (auto simp: built_listeners_nth intro!: nth_equalityI)
  show ?thesis
    using Inr res by (auto simp: BuildSnapshot_def services_of_def [symmetric] uniq snapshot_input_def
        split: sum.splits option.splits)
qed

subsection \<open>The indexed resources\<close>

text \<open>The resources handed over for one type.\<close>

definition inputs :: "(resource_type, 'any Resource list) gomap \<Rightarrow> resource_type \<Rightarrow> 'any Resource list" where
  "inputs rs t = (case go_get rs t of None \<Rightarrow> [] | Some l \<Rightarrow> l)"

lemma inputs_snapshot [simp]:
  "inputs (snapshot_input r routes obs lns) ClusterType = map ResCluster (built_clusters r routes)"
  "inputs (snapshot_input r routes obs lns) EndpointType = map ResEndpoint (built_endpoints r routes obs)"
  "inputs (snapshot_input r routes obs lns) ListenerType = map ResListener lns"
  "inputs (snapshot_input r routes obs lns) RouteType = map (ResRoute \<circ> service_route routes) (services_of r)"
  by (simp_all add: inputs_def snapshot_input_def)

lemma indexed_get:
  "indexed lib s v rs \<Longrightarrow>
   go_get (GetResources lib s t) n = map_of (rev (map (\<lambda>x. (resource_name x, x)) (inputs rs t))) n"
  by (simp add: indexed_def inputs_def)

lemma indexed_iff:
  "indexed lib s v rs \<Longrightarrow>
   go_get (GetResources lib s t) n = Some x \<longleftrightarrow> (n, x) \<in> set (GetResources lib s t)"
  by (rule go_get_iff) (simp add: indexed_def)

lemma indexed_mem:
  assumes "indexed lib s v rs" and "(n, x) \<in> set (GetResources lib s t)"
  shows "x \<in> set (inputs rs t)" and "resource_name x = n"
proof -
  have "go_get (GetResources lib s t) n = Some x"
    using assms by (simp only: indexed_iff)
  then have "(n, x) \<in> set (rev (map (\<lambda>x. (resource_name x, x)) (inputs rs t)))"
    using indexed_get [OF assms(1)] map_of_SomeD by metis
  then show "x \<in> set (inputs rs t)" and "resource_name x = n" by auto
qed

lemma indexed_names: "indexed lib s v rs \<Longrightarrow> resource_names lib s t = resource_name ` set (inputs rs t)"
proof -
  assume ix: "indexed lib s v rs"
  have "n \<in> resource_names lib s t \<longleftrightarrow> go_get (GetResources lib s t) n \<noteq> None" for n
    by (simp add: resource_names_def go_get_None_iff)
  also have "\<dots> n \<longleftrightarrow> n \<in> resource_name ` set (inputs rs t)" for n
    unfolding indexed_get [OF ix] map_of_eq_None_iff by force
  finally show ?thesis by blast
qed

text \<open>A name that only one of the resources carries is looked up to that resource.\<close>

lemma indexed_unique:
  assumes "indexed lib s v rs" and "x \<in> set (inputs rs t)"
    and "\<And>y. y \<in> set (inputs rs t) \<Longrightarrow> resource_name y = resource_name x \<Longrightarrow> y = x"
  shows "go_get (GetResources lib s t) (resource_name x) = Some x"
proof -
  have "resource_name x \<in> resource_names lib s t"
    using assms(1,2) by (auto simp: indexed_names)
  then obtain y where "(resource_name x, y) \<in> set (GetResources lib s t)"
    by (auto simp: resource_names_def)
  moreover from indexed_mem [OF assms(1) this] have "y = x" using assms(3) by auto
  ultimately show ?thesis using indexed_iff [OF assms(1)] by blast
qed

lemma indexed_build:
  assumes "lib_snapshots lib" and "BuildSnapshot lib r routes obs v = Inr s"
  shows "\<exists>lns. built_listeners lib 0 (services_of r) lns \<and> indexed lib s v (snapshot_input r routes obs lns)"
proof -
  obtain lns where lns: "built_listeners lib 0 (services_of r) lns"
    "NewSnapshot lib v (snapshot_input r routes obs lns) = Inr s"
    using assms(2) by (auto simp: BuildSnapshot_Inr)
  moreover obtain s' where "NewSnapshot lib v (snapshot_input r routes obs lns) = Inr s'"
    "indexed lib s' v (snapshot_input r routes obs lns)"
    using assms(1) snapshot_input_types unfolding lib_snapshots_def by blast
  ultimately show ?thesis by auto
qed

subsection \<open>Names\<close>

lemma clusterName_eq_iff:
  assumes "CHR '':'' \<notin> set svc" and "CHR '':'' \<notin> set svc'"
  shows "clusterName svc v = clusterName svc' v' \<longleftrightarrow> svc = svc' \<and> v = v'"
proof -
  have no: "svc @ CHR '':'' # x \<noteq> svc'" "svc' @ CHR '':'' # x \<noteq> svc" for x
    using assms by auto
  show ?thesis
    using append_sep_inject [OF assms, of "CHR '':'' # v" "CHR '':'' # v'"] no no [symmetric]
    by (auto simp: clusterName_def)
qed

lemma cName_buildCluster [simp]: "cName (buildCluster n cb) = n"
  by (simp add: buildCluster_def Let_def)

lemma cDiscoveryType_EDS [simp]: "cDiscoveryType c = Cluster_EDS"
  by (cases "cDiscoveryType c") simp

lemma claClusterName_build [simp]: "claClusterName (buildClusterLoadAssignment n is) = n"
  by (simp add: buildClusterLoadAssignment_def)

lemma rcName_service_route [simp]: "rcName (service_route routes svc) = svc @ ''-route''"
  by (simp add: service_route_def buildRouteConfiguration_def Let_def)

text \<open>Clusters and endpoint assignments are built in step, under the same names.\<close>

lemma cluster_endpoint_names:
  "map claClusterName (built_endpoints r routes obs) = map cName (built_clusters r routes)"
  by (simp add: built_endpoints_def built_clusters_def map_concat comp_def service_endpoints_def
      service_clusters_def)

definition listener_hcm :: "string \<Rightarrow> string \<Rightarrow> 'any \<Rightarrow> 'any HttpConnectionManager" where
  "listener_hcm svc rc router =
     \<lparr>hcmStatPrefix = svc, hcmRouteConfigName = rc, hcmConfigSource = ConfigSource_Ads ApiVersion_V3,
      hcmHttpFilters = [\<lparr>flName = ''envoy.filters.http.router'', flTypedConfig = router\<rparr>]\<rparr>"

lemma listener_hcm_sel [simp]:
  "hcmStatPrefix (listener_hcm svc rc router) = svc"
  "hcmRouteConfigName (listener_hcm svc rc router) = rc"
  by (simp_all add: listener_hcm_def)

lemma buildListener_eq:
  "buildListener lib svc port rc = Inr l \<longleftrightarrow>
     (\<exists>router a. anypb_New_Router lib = Inr router
        \<and> anypb_New_HCM lib (listener_hcm svc rc router) = Inr a
        \<and> l = \<lparr>lnName = svc @ ''-listener'', lnAddress = \<lparr>saAddress = ''0.0.0.0'', saPortValue = port\<rparr>,
               lnFilterChains = [[\<lparr>flName = ''envoy.filters.network.http_connection_manager'',
                                   flTypedConfig = a\<rparr>]]\<rparr>)"
  unfolding buildListener_def Let_def listener_hcm_def [symmetric]
  by (auto split: sum.splits)

lemma buildListener_Inr:
  "buildListener lib svc port rc = Inr l \<Longrightarrow>
     lnName l = svc @ ''-listener'' \<and> lnAddress l = \<lparr>saAddress = ''0.0.0.0'', saPortValue = port\<rparr>"
  by (auto simp: buildListener_eq)

lemma buildListener_ok:
  assumes "lib_packs lib rds_name valid" and "valid svc"
  shows "\<exists>l. buildListener lib svc port (svc @ ''-route'') = Inr l"
proof -
  obtain router where "anypb_New_Router lib = Inr router" using assms(1) by (auto simp: lib_packs_def)
  moreover have "list_all valid (hcm_strings (listener_hcm svc (svc @ ''-route'') router))"
    using assms by (simp add: lib_packs_def hcm_strings_def listener_hcm_def)
  ultimately show ?thesis using assms(1) by (auto simp: lib_packs_def buildListener_eq)
qed

lemma rds_references_listener:
  "lib_packs lib rds_name valid \<Longrightarrow> buildListener lib svc port rc = Inr l \<Longrightarrow>
   rc \<noteq> [] \<Longrightarrow> rds_references rds_name l = {rc}"
  by (auto simp: buildListener_eq lib_packs_def rds_references_def)

lemma built_listeners_exist:
  assumes "lib_packs lib rds_name valid" and "\<And>svc. svc \<in> set ss \<Longrightarrow> valid svc"
  shows "\<exists>lns. built_listeners lib i ss lns"
  using assms(2)
proof (induction ss arbitrary: i)
  case Nil
  show ?case by (rule exI [of _ "[]"]) simp
next
  case (Cons svc ss)
  then obtain lns where "built_listeners lib (i + 1) ss lns" by auto
  moreover obtain l where "buildListener lib svc (listener_port i) (svc @ ''-route'') = Inr l"
    using buildListener_ok [OF assms(1)] Cons.prems by (meson list.set_intros(1))
  ultimately show ?case by (intro exI [of _ "l # lns"]) simp
qed

lemma built_listeners_mem:
  assumes "built_listeners lib i ss lns"
  shows "l \<in> set lns \<Longrightarrow> \<exists>svc \<in> set ss. \<exists>port. buildListener lib svc port (svc @ ''-route'') = Inr l"
    and "svc \<in> set ss \<Longrightarrow> \<exists>l \<in> set lns. \<exists>port. buildListener lib svc port (svc @ ''-route'') = Inr l"
  using assms by (induction lib i ss lns rule: built_listeners.induct) auto

subsection \<open>Consistency\<close>

lemma eds_references_indexed:
  assumes "indexed lib s v (snapshot_input r routes obs lns)"
  shows "eds_references lib s = resource_names lib s ClusterType"
proof -
  let ?R = "set (GetResources lib s ClusterType)"
  have cl: "\<exists>c. x = ResCluster c \<and> cName c = n" if "(n, x) \<in> ?R" for n x
    using indexed_mem [OF assms that] by auto
  have "n \<in> eds_references lib s \<longleftrightarrow> (\<exists>m c. (m, ResCluster c) \<in> ?R \<and> cName c = n)" for n
    unfolding eds_references_def by force
  also have "\<dots> n \<longleftrightarrow> (\<exists>x. (n, x) \<in> ?R)" for n
    using cl by blast
  also have "\<dots> n \<longleftrightarrow> n \<in> resource_names lib s ClusterType" for n
    unfolding resource_names_def by force
  finally show ?thesis by blast
qed

lemma rds_references_indexed:
  assumes pk: "lib_packs lib rds_name valid" and lns: "built_listeners lib 0 (services_of r) lns"
    and ix: "indexed lib s v (snapshot_input r routes obs lns)"
  shows "\<Union> {rds_references rds_name l | l. ResListener l \<in> snd ` set (GetResources lib s ListenerType)}
    = resource_names lib s RouteType"
proof -
  let ?G = "set (GetResources lib s ListenerType)"
  have retained: "\<exists>svc \<in> set (services_of r). lnName l = svc @ ''-listener''
      \<and> rds_references rds_name l = {svc @ ''-route''}" if "ResListener l \<in> snd ` ?G" for l
  proof -
    from that obtain n where "(n, ResListener l) \<in> ?G" by auto
    from indexed_mem(1) [OF ix this] have "l \<in> set lns" by auto
    with built_listeners_mem(1) [OF lns] show ?thesis
      using buildListener_Inr rds_references_listener [OF pk] by (metis append_is_Nil_conv list.distinct(1))
  qed
  have present: "\<exists>l. ResListener l \<in> snd ` ?G \<and> rds_references rds_name l = {svc @ ''-route''}" if svc: "svc \<in> set (services_of r)" for svc
  proof -
    from built_listeners_mem(2) [OF lns svc] obtain l where "l \<in> set lns" "lnName l = svc @ ''-listener''"
      using buildListener_Inr by blast
    then have "svc @ ''-listener'' \<in> resource_names lib s ListenerType"
      by (force simp: indexed_names [OF ix])
    then obtain x where x: "(svc @ ''-listener'', x) \<in> ?G" by (auto simp: resource_names_def)
    with indexed_mem [OF ix x] obtain l where l: "ResListener l \<in> snd ` ?G" "lnName l = svc @ ''-listener''"
      by force
    with retained [OF l(1)] show ?thesis by auto
  qed
  have names: "resource_names lib s RouteType = (\<lambda>svc. svc @ ''-route'') ` set (services_of r)"
    by (simp add: indexed_names [OF ix] image_image)
  show ?thesis
    unfolding names
  proof (intro equalityI subsetI)
    fix n assume "n \<in> \<Union> {rds_references rds_name l | l. ResListener l \<in> snd ` ?G}"
    then obtain l where l: "ResListener l \<in> snd ` ?G" "n \<in> rds_references rds_name l" by blast
    from retained [OF l(1)] obtain svc where "svc \<in> set (services_of r)"
      "rds_references rds_name l = {svc @ ''-route''}" by blast
    with l(2) show "n \<in> (\<lambda>svc. svc @ ''-route'') ` set (services_of r)" by simp
  next
    fix n assume "n \<in> (\<lambda>svc. svc @ ''-route'') ` set (services_of r)"
    then obtain svc where "svc \<in> set (services_of r)" and n: "n = svc @ ''-route''" by blast
    from present [OF this(1)] obtain l where "ResListener l \<in> snd ` ?G" "n \<in> rds_references rds_name l"
      unfolding n by blast
    then show "n \<in> \<Union> {rds_references rds_name l | l. ResListener l \<in> snd ` ?G}" by blast
  qed
qed

lemma built_consistent:
  assumes "lib_packs lib rds_name valid" and "lib_consistency lib rds_name"
    and "built_listeners lib 0 (services_of r) lns"
    and ix: "indexed lib s v (snapshot_input r routes obs lns)"
  shows "Consistent lib s = None"
proof -
  have "resource_names lib s EndpointType = set (map claClusterName (built_endpoints r routes obs))"
    by (simp add: indexed_names [OF ix] image_image)
  also have "\<dots> = set (map cName (built_clusters r routes))"
    by (simp only: cluster_endpoint_names)
  also have "\<dots> = eds_references lib s"
    by (simp add: eds_references_indexed [OF ix] indexed_names [OF ix] image_image)
  finally show ?thesis
    using assms rds_references_indexed [OF assms(1,3) ix] by (simp add: lib_consistency_def)
qed

subsection \<open>Published resources, by name\<close>

text \<open>Every specification the builder reads has passed validation.\<close>

definition routes_ok :: "(string \<Rightarrow> Store) option \<Rightarrow> bool" where
  "routes_ok routes \<longleftrightarrow> (case routes of None \<Rightarrow> True | Some st \<Rightarrow> \<forall>svc. store_inv (st svc))"

lemma lookupSpec_valid: "routes_ok routes \<Longrightarrow> lookupSpec routes svc = Some sp \<Longrightarrow> Service sp = svc \<and> Validate sp = None"
  using store_inv_Get by (fastforce simp: routes_ok_def lookupSpec_def split: option.splits)

lemma splits_of_ok:
  "routes_ok routes \<Longrightarrow> distinct (map vwVersion (splits_of routes svc)) \<and> splits_of routes svc \<noteq> []"
  using lookupSpec_valid [of routes svc]
  by (auto simp: splits_of_def noVersionSplit_def Validate_None split: option.splits)

lemma services_distinct: "distinct (services_of r) \<longleftrightarrow> distinct (ListServices xds_Namespace r)"
  by (simp add: services_of_def)

lemma listener_lookup:
  assumes ix: "indexed lib s v (snapshot_input r routes obs lns)"
    and lns: "built_listeners lib 0 (services_of r) lns"
    and "distinct (services_of r)" and j: "j < length (services_of r)"
  shows "go_get (GetResources lib s ListenerType) (services_of r ! j @ ''-listener'') = Some (ResListener (lns ! j))"
proof -
  have name: "lnName (lns ! k) = services_of r ! k @ ''-listener''" if "k < length (services_of r)" for k
    using lns that buildListener_Inr by (fastforce simp: built_listeners_nth)
  have len: "length lns = length (services_of r)" using lns by (simp add: built_listeners_nth)
  have "go_get (GetResources lib s ListenerType) (resource_name (ResListener (lns ! j) :: 'a Resource)) = Some (ResListener (lns ! j))"
  proof (rule indexed_unique [OF ix])
    show "ResListener (lns ! j) \<in> set (inputs (snapshot_input r routes obs lns) ListenerType)"
      using j len by simp
  next
    fix y assume "y \<in> set (inputs (snapshot_input r routes obs lns) ListenerType)"
      and n: "resource_name y = resource_name (ResListener (lns ! j))"
    then obtain k where k: "k < length (services_of r)" "y = ResListener (lns ! k)"
      using len by (auto simp: in_set_conv_nth)
    then have "services_of r ! k = services_of r ! j" using n name j by simp
    then have "k = j" using assms(3) j k(1) by (simp add: nth_eq_iff_index_eq)
    with k(2) show "y = ResListener (lns ! j)" by simp
  qed
  then show ?thesis by (simp add: name [OF j])
qed

lemma built_endpoint_unique:
  assumes "routes_ok routes" and "\<And>n. n \<in> set (services_of r) \<Longrightarrow> CHR '':'' \<notin> set n"
    and "e \<in> set (built_endpoints r routes obs)" and "e' \<in> set (built_endpoints r routes obs)"
    and "claClusterName e = claClusterName e'"
  shows "e = e'"
proof -
  let ?e = "\<lambda>svc sp. buildClusterLoadAssignment (clusterName svc (vwVersion sp)) (split_instances obs svc (vwVersion sp))"
  obtain svc sp svc' sp' where
    e: "svc \<in> set (services_of r)" "sp \<in> set (splits_of routes svc)" "e = ?e svc sp" and
    e': "svc' \<in> set (services_of r)" "sp' \<in> set (splits_of routes svc')" "e' = ?e svc' sp'"
    using assms(3,4) by (auto simp: built_endpoints_def service_endpoints_def)
  then have "svc = svc' \<and> vwVersion sp = vwVersion sp'"
    using assms(5) clusterName_eq_iff [of svc svc'] assms(2) by simp
  with e e' show ?thesis by simp
qed

lemma endpoint_lookup:
  assumes ix: "indexed lib s v (snapshot_input r routes obs lns)" and "routes_ok routes"
    and "\<And>n. n \<in> set (services_of r) \<Longrightarrow> CHR '':'' \<notin> set n"
    and "svc \<in> set (services_of r)" and "sp \<in> set (splits_of routes svc)"
  shows "go_get (GetResources lib s EndpointType) (clusterName svc (vwVersion sp)) =
    Some (ResEndpoint (buildClusterLoadAssignment (clusterName svc (vwVersion sp))
            (split_instances obs svc (vwVersion sp))))"
proof -
  let ?e = "buildClusterLoadAssignment (clusterName svc (vwVersion sp)) (split_instances obs svc (vwVersion sp))"
  have mem: "?e \<in> set (built_endpoints r routes obs)"
    using assms(4,5) by (auto simp: built_endpoints_def service_endpoints_def)
  have "go_get (GetResources lib s EndpointType) (resource_name (ResEndpoint ?e :: 'a Resource)) = Some (ResEndpoint ?e)"
  proof (rule indexed_unique [OF ix])
    show "ResEndpoint ?e \<in> set (inputs (snapshot_input r routes obs lns) EndpointType)"
      using mem by simp
  next
    fix y assume "y \<in> set (inputs (snapshot_input r routes obs lns) EndpointType)"
      and n: "resource_name y = resource_name (ResEndpoint ?e)"
    then obtain e where e: "e \<in> set (built_endpoints r routes obs)" "y = ResEndpoint e" by auto
    have "e = ?e"
      by (rule built_endpoint_unique [OF assms(2,3) e(1) mem]) (use n e(2) in simp_all)
    with e(2) show "y = ResEndpoint ?e" by simp
  qed
  then show ?thesis by simp
qed

definition referenced_clusters :: "RouteConfiguration \<Rightarrow> string set" where
  "referenced_clusters rc =
     (\<Union>vh \<in> set (rcVirtualHosts rc). \<Union>rt \<in> set (vhRoutes vh).
        (case raClusterSpecifier (rtAction rt) of
           RouteAction_Cluster n \<Rightarrow> {n}
         | RouteAction_WeightedClusters ws \<Rightarrow> cwName ` set ws))"

lemma referenced_clusters_build:
  "referenced_clusters (buildRouteConfiguration n vh ws spec) = cwName ` set ws"
  by (auto simp: referenced_clusters_def buildRouteConfiguration_def Let_def split: list.splits)

lemma split_instances_sorted:
  "reg_inv (fst (obs svc v)) \<Longrightarrow> sorted_wrt (<) (map InstanceID (split_instances obs svc v))"
  unfolding split_instances_def HealthyInstances_eq filter_filter
  using all_instances_strict [of "fst (obs svc v)" "key xds_Namespace svc"]
  by (auto simp: strict_sorted_iff sorted_filter distinct_map_filter)

lemma set_split_instances:
  "reg_inv (fst (obs svc v)) \<Longrightarrow> set (split_instances obs svc v) =
     {i. find_instance (fst (obs svc v)) (key xds_Namespace svc) (InstanceID i) = Some i \<and> Healthy i
         \<and> time_Sub (snd (obs svc v)) (LastHeartbeat i) \<le> 15 * Second \<and> (v = [] \<or> Version i = v)}"
  unfolding split_instances_def set_filter mem.mem_healthy
  by (simp add: routable_def stale_def xds_staleAfter_def Second_def linorder_not_less conj_assoc)

section \<open>A reference library\<close>

text \<open>
  The documented behaviour of the libraries, executable: packed messages keep the names,
  a snapshot is its version and its indexed resources, and the consistency check compares
  the names. It satisfies the hypotheses above and instantiates them in the witnesses.
\<close>

datatype ref_any = AnyRouter | AnyHcm string string

type_synonym ref_snap = "string \<times> (resource_type \<Rightarrow> (string, ref_any Resource) gomap)"

fun ref_rds_name :: "ref_any \<Rightarrow> string option" where
  "ref_rds_name AnyRouter = None"
| "ref_rds_name (AnyHcm stat rds) = Some rds"

definition index_by_name :: "'any Resource list \<Rightarrow> (string, 'any Resource) gomap" where
  "index_by_name xs = fold (\<lambda>x. go_set (resource_name x) x) xs []"

fun cluster_reference :: "'any Resource \<Rightarrow> string list" where
  "cluster_reference (ResCluster c) = (if cDiscoveryType c = Cluster_EDS then [cName c] else [])"
| "cluster_reference _ = []"

fun listener_references :: "ref_any Resource \<Rightarrow> string list" where
  "listener_references (ResListener l) =
     filter (\<lambda>n. n \<noteq> []) (List.map_filter (\<lambda>f. ref_rds_name (flTypedConfig f)) (concat (lnFilterChains l)))"
| "listener_references _ = []"

definition ref_consistent :: "ref_snap \<Rightarrow> lib_error option" where
  "ref_consistent s =
     (if set (map fst (snd s EndpointType)) = set (concat (map (cluster_reference \<circ> snd) (snd s ClusterType)))
         \<and> set (map fst (snd s RouteType)) = set (concat (map (listener_references \<circ> snd) (snd s ListenerType)))
      then None else Some ''inconsistent'')"

definition ref_lib :: "(ref_any, ref_snap) xds_lib" where
  "ref_lib =
     \<lparr>anypb_New_Router = Inr AnyRouter,
      anypb_New_HCM = (\<lambda>h. Inr (AnyHcm (hcmStatPrefix h) (hcmRouteConfigName h))),
      NewSnapshot = (\<lambda>v rs. Inr (v, \<lambda>t. index_by_name (case go_get rs t of None \<Rightarrow> [] | Some l \<Rightarrow> l))),
      Consistent = ref_consistent, GetResources = snd, GetVersion = (\<lambda>s t. fst s)\<rparr>"

lemma index_by_name_get:
  "go_ok (index_by_name xs)
   \<and> go_get (index_by_name xs) n = map_of (rev (map (\<lambda>x. (resource_name x, x)) xs)) n"
proof (induction xs rule: rev_induct)
  case (snoc x xs)
  then show ?case by (auto simp: index_by_name_def)
qed (simp add: index_by_name_def)

lemma ref_lib_packs: "lib_packs ref_lib ref_rds_name (\<lambda>_. True)"
  by (simp add: lib_packs_def ref_lib_def)

lemma ref_lib_snapshots: "lib_snapshots ref_lib"
  by (simp add: lib_snapshots_def indexed_def ref_lib_def index_by_name_get)

lemma set_cluster_references:
  "set (concat (map (cluster_reference \<circ> snd) m)) = {cName c | c. ResCluster c \<in> snd ` set m}"
proof -
  have "n \<in> set (cluster_reference x) \<longleftrightarrow> (\<exists>c. x = ResCluster c \<and> n = cName c)" for n and x :: "'b Resource"
    by (cases x) auto
  then show ?thesis by force
qed

lemma set_listener_references:
  "set (concat (map (listener_references \<circ> snd) m)) =
     \<Union> {rds_references ref_rds_name l | l. ResListener l \<in> snd ` set m}"
proof -
  have "n \<in> set (listener_references x) \<longleftrightarrow> (\<exists>l. x = ResListener l \<and> n \<in> rds_references ref_rds_name l)" for n x
    by (cases x) (force simp: rds_references_def map_filter_def)+
  then show ?thesis by force
qed

lemma ref_lib_consistency: "lib_consistency ref_lib ref_rds_name"
  unfolding lib_consistency_def resource_names_def eds_references_def
  by (simp add: ref_lib_def ref_consistent_def set_cluster_references set_listener_references
      del: set_concat)

lemmas ref_lib_laws = ref_lib_packs ref_lib_snapshots ref_lib_consistency

section \<open>Properties\<close>

text \<open>A fixed registry and clock for all the reads of one build.\<close>

definition still :: "InMemory \<Rightarrow> time \<Rightarrow> observations" where
  "still r now svc v = (r, now)"

definition sample_registry :: "Instance list \<Rightarrow> InMemory" where
  "sample_registry is = fold reg_step (map (OpRegister 5) is) New"

lemma reg_inv_sample: "reg_inv (sample_registry is)"
  by (simp add: sample_registry_def reg_inv_fold reg_inv_New)

lemma build_total:
  assumes "lib_packs lib rds_name valid" and "lib_snapshots lib" and "lib_consistency lib rds_name"
    and "\<And>svc. svc \<in> set (ListServices xds_Namespace r) \<Longrightarrow> valid svc"
  shows "\<exists>s. BuildSnapshot lib r routes obs version = Inr s \<and> Consistent lib s = None
    \<and> (\<forall>t. GetVersion lib s t = version)"
proof -
  obtain lns where lns: "built_listeners lib 0 (services_of r) lns"
    using built_listeners_exist [OF assms(1), of "services_of r"] assms(4) by (auto simp: services_of_def)
  obtain s where s: "NewSnapshot lib version (snapshot_input r routes obs lns) = Inr s"
    "indexed lib s version (snapshot_input r routes obs lns)"
    using assms(2) snapshot_input_types unfolding lib_snapshots_def by blast
  have con: "Consistent lib s = None"
    by (rule built_consistent [OF assms(1,3) lns s(2)])
  with lns s have "BuildSnapshot lib r routes obs version = Inr s"
    by (auto simp: BuildSnapshot_Inr)
  with con s(2) show ?thesis by (auto simp: indexed_def)
qed

lemma ref_build: "\<exists>s. BuildSnapshot ref_lib r routes obs v = Inr s"
  using build_total [OF ref_lib_packs ref_lib_snapshots ref_lib_consistency, of r routes obs v]
  by blast

text \<open>C17. Liveness of the builder: whatever the registry and the route store hold, and however
  they change between the reads, a build succeeds, as long as the service names can be
  packed into protocol buffers and the libraries behave as documented. In particular the
  consistency check of \<open>go-control-plane\<close> never rejects what \<open>BuildSnapshot\<close> constructs.\<close>

theorem BuildSnapshot_succeeds:
  assumes "lib_packs lib rds_name valid" and "lib_snapshots lib" and "lib_consistency lib rds_name"
    and "\<forall>svc \<in> set (ListServices xds_Namespace r). valid svc"
  shows "\<exists>s. BuildSnapshot lib r routes obs version = Inr s \<and> Consistent lib s = None
    \<and> (\<forall>t. GetVersion lib s t = version)"
  using build_total [OF assms(1-3)] assms(4) by blast

theorem BuildSnapshot_succeeds_witness:
  "\<exists>s. BuildSnapshot ref_lib (sample_registry [sample_instance ''default'' ''a'' ''i1'' []]) None
         (still (sample_registry [sample_instance ''default'' ''a'' ''i1'' []]) 6) ''v1'' = Inr s
     \<and> Consistent ref_lib s = None \<and> (\<forall>t. GetVersion ref_lib s t = ''v1'')"
  by (rule BuildSnapshot_succeeds [OF ref_lib_laws]) (rule ballI, rule TrueI)

lemmas build_eval = sample_registry_def registry_eval BuildSnapshot_def services_of_def ListServices_def
  xds_Namespace_def ref_lib_def index_by_name_def still_def

text \<open>C25. Listeners: the service at position \<open>j\<close> of the sorted service list gets the listener named
  after it, on all addresses and on port \<open>20000 + j\<close>, computed in 32 bits. So the ports of two
  services are different while there are at most \<open>2\<^sup>3\<^sup>2\<close> of them, and they depend on the set of
  service names only. There is no range check: the port is a legal one, below 65536, exactly
  for the first 45536 services.\<close>

theorem listener_ports:
  assumes "lib_snapshots lib" and "reg_inv r" and "BuildSnapshot lib r routes obs v = Inr s"
  shows "\<forall>j < length (ListServices xds_Namespace r).
     \<exists>l. go_get (GetResources lib s ListenerType) (ListServices xds_Namespace r ! j @ ''-listener'') = Some (ResListener l)
       \<and> saAddress (lnAddress l) = ''0.0.0.0'' \<and> unat (saPortValue (lnAddress l)) = (20000 + j) mod 2 ^ 32
       \<and> (j < 2 ^ 32 - 20000 \<longrightarrow> (unat (saPortValue (lnAddress l)) \<le> 65535 \<longleftrightarrow> j < 45536))"
proof (intro allI impI)
  fix j assume j: "j < length (ListServices xds_Namespace r)"
  note ss = services_of_eq [OF assms(2)]
  obtain lns where lns: "built_listeners lib 0 (services_of r) lns"
    and ix: "indexed lib s v (snapshot_input r routes obs lns)"
    using indexed_build [OF assms(1,3)] by blast
  have "distinct (services_of r)"
    using ListServices_strict [OF assms(2)] by (simp add: ss strict_sorted_iff)
  then have get: "go_get (GetResources lib s ListenerType) (services_of r ! j @ ''-listener'') = Some (ResListener (lns ! j))"
    using listener_lookup [OF ix lns] j by (simp add: ss)
  have "buildListener lib (services_of r ! j) (listener_port (int j)) (services_of r ! j @ ''-route'') = Inr (lns ! j)"
    using lns j by (simp add: built_listeners_nth ss)
  then have ad: "lnAddress (lns ! j) = \<lparr>saAddress = ''0.0.0.0'', saPortValue = listener_port (int j)\<rparr>"
    by (simp add: buildListener_Inr)
  have "listener_port (int j) = of_nat (20000 + j)" by (simp add: listener_port_def basePort_def)
  then have "unat (listener_port (int j)) = (20000 + j) mod 2 ^ 32" by (simp only: unat_of_nat) simp
  with get ad show "\<exists>l. go_get (GetResources lib s ListenerType) (ListServices xds_Namespace r ! j @ ''-listener'')
         = Some (ResListener l)
       \<and> saAddress (lnAddress l) = ''0.0.0.0'' \<and> unat (saPortValue (lnAddress l)) = (20000 + j) mod 2 ^ 32
       \<and> (j < 2 ^ 32 - 20000 \<longrightarrow> (unat (saPortValue (lnAddress l)) \<le> 65535 \<longleftrightarrow> j < 45536))"
    by (auto simp: ss)
qed

theorem listener_ports_witness:
  "let r = sample_registry [sample_instance ''default'' ''a'' ''i1'' []] in
   \<exists>s l. BuildSnapshot ref_lib r None (still r 6) ''v1'' = Inr s
     \<and> go_get (GetResources ref_lib s ListenerType) ''a-listener'' = Some (ResListener l)
     \<and> unat (saPortValue (lnAddress l)) = 20000"
proof -
  let ?r = "sample_registry [sample_instance ''default'' ''a'' ''i1'' []]"
  have ls: "ListServices xds_Namespace ?r = [''a'']" by (simp add: build_eval)
  obtain s where s: "BuildSnapshot ref_lib ?r None (still ?r 6) ''v1'' = Inr s"
    using ref_build by blast
  from listener_ports [OF ref_lib_snapshots reg_inv_sample s] show ?thesis
    unfolding ls Let_def using s by auto
qed

text \<open>C9. Endpoints of the default namespace, when no listed service name contains a colon: for every
  listed service and every split of its traffic, the snapshot holds, under the cluster's
  name, exactly the instances that the registry met by the read marks healthy, whose last
  heartbeat is at most 15 seconds old and, for a split with a version, whose version is the
  split's, in increasing ID order; a split with the empty version gets the instances of all
  versions.\<close>

theorem published_endpoints:
  assumes "lib_snapshots lib" and "BuildSnapshot lib r routes obs v = Inr s" and "routes_ok routes"
    and "\<forall>n \<in> set (ListServices xds_Namespace r). CHR '':'' \<notin> set n"
    and "svc \<in> set (ListServices xds_Namespace r)" and "sp \<in> set (splits_of routes svc)"
    and "reg_inv (fst (obs svc (vwVersion sp)))"
  shows "\<exists>is. go_get (GetResources lib s EndpointType) (clusterName svc (vwVersion sp)) =
        Some (ResEndpoint \<lparr>claClusterName = clusterName svc (vwVersion sp), claEndpoints = [map lbEndpoint is]\<rparr>)
      \<and> sorted_wrt (<) (map InstanceID is)
      \<and> set is = {i. find_instance (fst (obs svc (vwVersion sp))) (key xds_Namespace svc) (InstanceID i) = Some i
            \<and> Healthy i \<and> time_Sub (snd (obs svc (vwVersion sp))) (LastHeartbeat i) \<le> 15 * Second
            \<and> (vwVersion sp = [] \<or> Version i = vwVersion sp)}"
proof -
  obtain lns where ix: "indexed lib s v (snapshot_input r routes obs lns)"
    using indexed_build [OF assms(1,2)] by blast
  show ?thesis
    using endpoint_lookup [OF ix assms(3), of svc sp] assms(4-7)
      split_instances_sorted [of obs svc "vwVersion sp"] set_split_instances [of obs svc "vwVersion sp"]
    by (auto simp: services_of_def buildClusterLoadAssignment_def)
qed

theorem published_endpoints_witness:
  "let r = sample_registry [sample_instance ''default'' ''a'' ''i1'' []] in
   \<exists>s is. BuildSnapshot ref_lib r None (still r 6) ''v1'' = Inr s
     \<and> go_get (GetResources ref_lib s EndpointType) ''a'' =
         Some (ResEndpoint \<lparr>claClusterName = ''a'', claEndpoints = [map lbEndpoint is]\<rparr>)
     \<and> registered 5 (sample_instance ''default'' ''a'' ''i1'' []) \<in> set is"
proof -
  let ?i = "sample_instance ''default'' ''a'' ''i1'' []"
  let ?r = "sample_registry [?i]"
  have ls: "ListServices xds_Namespace ?r = [''a'']" by (simp add: build_eval)
  obtain s where s: "BuildSnapshot ref_lib ?r None (still ?r 6) ''v1'' = Inr s"
    using ref_build by blast
  have "find_instance ?r (key xds_Namespace ''a'') (InstanceID (registered 5 ?i)) = Some (registered 5 ?i)
      \<and> Healthy (registered 5 ?i) \<and> time_Sub 6 (LastHeartbeat (registered 5 ?i)) \<le> 15 * Second"
    by (simp add: build_eval time_Sub_def duration_defs)
  moreover obtain xs where "go_get (GetResources ref_lib s EndpointType) ''a'' =
        Some (ResEndpoint \<lparr>claClusterName = ''a'', claEndpoints = [map lbEndpoint xs]\<rparr>)"
      "set xs = {i. find_instance ?r (key xds_Namespace ''a'') (InstanceID i) = Some i
         \<and> Healthy i \<and> time_Sub 6 (LastHeartbeat i) \<le> 15 * Second}"
    using published_endpoints [OF ref_lib_snapshots s, of "''a''" "\<lparr>vwVersion = [], Weight = 100\<rparr>"]
    unfolding ls by (auto simp: routes_ok_def splits_of_def lookupSpec_def noVersionSplit_def
        clusterName_def still_def reg_inv_sample)
  ultimately show ?thesis unfolding Let_def using s by (intro exI [of _ s] exI [of _ xs]) simp
qed

text \<open>Each service has its own route configuration and its own listener.\<close>

lemma route_lookup:
  assumes "indexed lib s v (snapshot_input r routes obs lns)" and "svc \<in> set (services_of r)"
  shows "go_get (GetResources lib s RouteType) (svc @ ''-route'') = Some (ResRoute (service_route routes svc))"
proof -
  have "svc @ ''-route'' \<in> resource_names lib s RouteType"
    using assms(2) by (auto simp: indexed_names [OF assms(1)] image_image)
  then obtain x where x: "(svc @ ''-route'', x) \<in> set (GetResources lib s RouteType)"
    by (auto simp: resource_names_def)
  obtain svc' where "x = ResRoute (service_route routes svc')" using indexed_mem(1) [OF assms(1) x] by auto
  moreover from this have "svc' = svc" using indexed_mem(2) [OF assms(1) x] by simp
  ultimately show ?thesis using x by (simp add: indexed_iff [OF assms(1)])
qed

lemma published_route_eq:
  assumes "lib_snapshots lib" and "BuildSnapshot lib r routes obs v = Inr s"
    and "(n, ResRoute rc) \<in> set (GetResources lib s RouteType)"
  shows "\<exists>svc \<in> set (services_of r). rc = service_route routes svc"
    and "resource_names lib s ClusterType = set (map cName (built_clusters r routes))"
    and "resource_names lib s EndpointType = set (map cName (built_clusters r routes))"
proof -
  obtain lns where ix: "indexed lib s v (snapshot_input r routes obs lns)"
    using indexed_build [OF assms(1,2)] by blast
  show "\<exists>svc \<in> set (services_of r). rc = service_route routes svc"
    using indexed_mem(1) [OF ix assms(3)] by auto
  show "resource_names lib s ClusterType = set (map cName (built_clusters r routes))"
    by (simp add: indexed_names [OF ix] image_image)
  have "resource_names lib s EndpointType = set (map claClusterName (built_endpoints r routes obs))"
    by (simp add: indexed_names [OF ix] image_image)
  then show "resource_names lib s EndpointType = set (map cName (built_clusters r routes))"
    by (simp only: cluster_endpoint_names)
qed

lemma built_routes_closed:
  assumes "lib_snapshots lib" and "BuildSnapshot lib r routes obs v = Inr s" and "routes_ok routes"
    and "(n, ResRoute rc) \<in> set (GetResources lib s RouteType)"
  shows "referenced_clusters rc \<noteq> {}
    \<and> referenced_clusters rc \<subseteq> resource_names lib s ClusterType \<inter> resource_names lib s EndpointType"
proof -
  note pub = published_route_eq [OF assms(1,2,4)]
  obtain svc where svc: "svc \<in> set (services_of r)" "rc = service_route routes svc" using pub(1) by blast
  have refs: "referenced_clusters rc = (\<lambda>sp. clusterName svc (vwVersion sp)) ` set (splits_of routes svc)"
    by (simp add: svc(2) service_route_def referenced_clusters_build service_weights_def image_image)
  moreover have "\<dots> \<subseteq> set (map cName (built_clusters r routes))"
    using svc(1) by (auto simp: built_clusters_def service_clusters_def image_iff) blast
  ultimately show ?thesis
    using splits_of_ok [OF assms(3)] by (simp add: pub(2,3))
qed

text \<open>C10. Referential integrity: every route configuration of a snapshot sends traffic to at least
  one cluster, and every cluster it names is both a cluster and an endpoint resource of the
  same snapshot. The library's check does not cover this; the builder ensures it by
  construction, however the registry changes meanwhile.\<close>

theorem routes_reference_built_clusters:
  assumes "lib_snapshots lib" and "BuildSnapshot lib r routes obs v = Inr s" and "routes_ok routes"
    and "(n, ResRoute rc) \<in> set (GetResources lib s RouteType)"
  shows "referenced_clusters rc \<noteq> {}
    \<and> referenced_clusters rc \<subseteq> resource_names lib s ClusterType \<inter> resource_names lib s EndpointType"
  by (rule built_routes_closed [OF assms])

theorem routes_reference_built_clusters_witness:
  "let r = sample_registry [sample_instance ''default'' ''a'' ''i1'' []] in
   \<exists>s rc. BuildSnapshot ref_lib r None (still r 6) ''v1'' = Inr s
     \<and> (''a-route'', ResRoute rc) \<in> set (GetResources ref_lib s RouteType) \<and> referenced_clusters rc \<noteq> {}"
proof -
  let ?r = "sample_registry [sample_instance ''default'' ''a'' ''i1'' []]"
  obtain s where s: "BuildSnapshot ref_lib ?r None (still ?r 6) ''v1'' = Inr s"
    using ref_build by blast
  obtain lns where ix: "indexed ref_lib s ''v1'' (snapshot_input ?r None (still ?r 6) lns)"
    using indexed_build [OF ref_lib_snapshots s] by blast
  have "services_of ?r = [''a'']" by (simp add: build_eval)
  then have "''a-route'' \<in> resource_names ref_lib s RouteType" by (simp add: indexed_names [OF ix])
  then obtain x where x: "(''a-route'', x) \<in> set (GetResources ref_lib s RouteType)"
    by (auto simp: resource_names_def)
  then obtain rc where rc: "x = ResRoute rc" using indexed_mem(1) [OF ix x] by auto
  have "referenced_clusters rc \<noteq> {}"
    using routes_reference_built_clusters [OF ref_lib_snapshots s _ x [unfolded rc]] by (simp add: routes_ok_def)
  with s x rc show ?thesis unfolding Let_def by blast
qed

text \<open>C24. Determinism: two builds give the same result, error or snapshot, whenever the registries
  they read hold the same contents at the same clock readings, whatever the order in which
  the instances were registered and the runtime visits its maps.\<close>

theorem BuildSnapshot_deterministic:
  assumes "reg_equiv r r'"
    and "\<forall>svc u. reg_equiv (fst (obs svc u)) (fst (obs' svc u)) \<and> snd (obs svc u) = snd (obs' svc u)"
  shows "BuildSnapshot lib r routes obs v = BuildSnapshot lib r' routes obs' v"
proof -
  have "split_instances obs svc u = split_instances obs' svc u" for svc u
    using assms(2) by (auto simp: split_instances_def reg_equiv_def intro!: arg_cong [where f = "filter _"] mem.healthy_cong)
  then have "service_endpoints routes obs = service_endpoints routes obs'"
    by (simp add: fun_eq_iff service_endpoints_def)
  then have "service_loop lib routes obs i ss cs es ls rcs = service_loop lib routes obs' i ss cs es ls rcs" for i ss cs es ls rcs
    by (induction ss arbitrary: i cs es ls rcs) (simp_all add: service_loop_Cons split: sum.split)
  moreover have "ListServices xds_Namespace r = ListServices xds_Namespace r'"
    using assms(1) by (rule ListServices_cong)
  ultimately show ?thesis by (simp add: BuildSnapshot_def)
qed

theorem BuildSnapshot_deterministic_witness:
  "let a = sample_instance ''default'' ''a'' ''i1'' []; b = sample_instance ''default'' ''b'' ''i1'' [];
       r = sample_registry [a, b]; r' = sample_registry [b, a]
   in BuildSnapshot ref_lib r None (still r 6) ''v1'' = BuildSnapshot ref_lib r' None (still r' 6) ''v1''"
proof -
  let ?a = "sample_instance ''default'' ''a'' ''i1'' []" and ?b = "sample_instance ''default'' ''b'' ''i1'' []"
  have "find_instance (sample_registry [?a, ?b]) = find_instance (sample_registry [?b, ?a])"
    by (auto simp: sample_registry_def registry_eval fun_eq_iff)
  then have "reg_equiv (sample_registry [?a, ?b]) (sample_registry [?b, ?a])"
    by (simp add: reg_equiv_def reg_inv_sample)
  then show ?thesis
    unfolding Let_def by (intro BuildSnapshot_deterministic) (simp_all add: still_def)
qed

text \<open>The route of a service with a stored specification: a single split is routed directly to
  its cluster, several splits become the weighted clusters with the stored weights in
  their order; the timeout is set exactly when one is configured, to that many milliseconds
  with no overflow; the retry policy is set exactly when retries are on, and then allows at
  least one retry.\<close>

lemma service_route_spec:
  assumes "routes_ok routes" and "lookupSpec routes svc = Some spec"
  shows "\<exists>a. service_route routes svc =
        \<lparr>rcName = svc @ ''-route'',
         rcVirtualHosts = [\<lparr>vhName = svc, vhDomains = [''*''], vhRoutes = [\<lparr>rtPrefix = ''/'', rtAction = a\<rparr>]\<rparr>]\<rparr>
      \<and> raClusterSpecifier a =
          (case Splits spec of
             [sp] \<Rightarrow> RouteAction_Cluster (clusterName svc (vwVersion sp))
           | sps \<Rightarrow> RouteAction_WeightedClusters
               (map (\<lambda>sp. \<lparr>cwName = clusterName svc (vwVersion sp), cwWeight = Weight sp\<rparr>) sps))
      \<and> raTimeout a = (if TimeoutMs spec = 0 then None else Some (int (unat (TimeoutMs spec)) * Millisecond))
      \<and> (case raRetryPolicy a of
           None \<Rightarrow> RetryOn spec = []
         | Some rp \<Rightarrow> RetryOn spec \<noteq> [] \<and> rpRetryOn rp = RetryOn spec \<and> rpNumRetries rp = NumRetries spec
             \<and> 0 < unat (rpNumRetries rp))"
proof -
  have valid: "Validate spec = None" using lookupSpec_valid [OF assms] by simp
  have single: "Splits spec = [sp] \<Longrightarrow> Weight sp = 100" for sp
    using valid by (simp add: Validate_None word_total_def)
  have "0 \<le> uint (TimeoutMs spec)" "uint (TimeoutMs spec) < 2 ^ 32"
    using uint_lt2p [of "TimeoutMs spec"] by simp_all
  then have "int64 (uint (TimeoutMs spec) * Millisecond) = uint (TimeoutMs spec) * Millisecond"
    unfolding duration_defs by (intro int64_id; simp; linarith)
  moreover have "RetryOn spec = [] \<or> 0 < unat (NumRetries spec)"
    using valid by (auto simp: Validate_None unat_gt_0)
  ultimately show ?thesis
    using single
    by (auto simp: service_route_def buildRouteConfiguration_def Let_def service_weights_def
        splits_of_def spec_of_def assms(2) word_gt_0 unat_eq_0 split: list.splits)
qed

definition sample_store :: "Spec list \<Rightarrow> Store" where
  "sample_store sps = fold store_step (map OpSet sps) NewStore"

lemma routes_ok_sample: "routes_ok (Some (\<lambda>_. sample_store sps))"
  by (simp add: routes_ok_def sample_store_def store_inv_fold store_inv_NewStore)

lemmas store_eval = sample_store_def sample_spec_def Store_Set_def Store_Get_def NewStore_def Validate_def
  go_set_def

lemma service_route_sample:
  "\<exists>a. service_route (Some (\<lambda>_. sample_store [sample_spec ''a'' [(''v1'', 90), (''v2'', 10)]])) ''a'' =
        \<lparr>rcName = ''a-route'',
         rcVirtualHosts = [\<lparr>vhName = ''a'', vhDomains = [''*''], vhRoutes = [\<lparr>rtPrefix = ''/'', rtAction = a\<rparr>]\<rparr>]\<rparr>
      \<and> raClusterSpecifier a = RouteAction_WeightedClusters
          [\<lparr>cwName = ''a::v1'', cwWeight = 90\<rparr>, \<lparr>cwName = ''a::v2'', cwWeight = 10\<rparr>]"
proof -
  let ?spec = "sample_spec ''a'' [(''v1'', 90), (''v2'', 10)]"
  have "lookupSpec (Some (\<lambda>_. sample_store [?spec])) ''a'' = Some ?spec"
    by (simp add: lookupSpec_def store_eval)
  from service_route_spec [OF routes_ok_sample this] show ?thesis
    by (auto simp: sample_spec_def clusterName_def)
qed

text \<open>The endpoints of an unversioned split are kept under the name of its service, whatever other
  services there are: a service with a cluster of that name is a prefix of it, so it is
  built earlier, and the last resource of a name stays.\<close>

lemma map_of_unique:
  "\<exists>x \<in> set xs. f x = k \<Longrightarrow> \<forall>x \<in> set xs. f x = k \<longrightarrow> g x = v \<Longrightarrow> map_of (map (\<lambda>x. (f x, g x)) xs) k = Some v"
  by (induction xs) auto

lemma prefix_le: "(p :: string) \<le> p @ q"
  by (induction p) simp_all

lemma clusterName_le: "svc \<le> clusterName svc u"
  by (simp add: clusterName_def prefix_le)

lemma unversioned_endpoint:
  assumes ix: "indexed lib s v (snapshot_input r routes obs lns)" and "svc \<in> set (services_of r)"
    and "sp \<in> set (splits_of routes svc)" and "vwVersion sp = []"
  shows "go_get (GetResources lib s EndpointType) svc =
    Some (ResEndpoint (buildClusterLoadAssignment svc (split_instances obs svc [])))"
proof -
  let ?e = "buildClusterLoadAssignment svc (split_instances obs svc [])"
  let ?f = "\<lambda>n. map (\<lambda>e. (claClusterName e, ResEndpoint e :: 'a Resource)) (service_endpoints routes obs n)"
  obtain pre post where ss: "services_of r = pre @ svc # post" "svc \<notin> set post"
    using split_list_last [OF assms(2)] by blast
  have "sorted (services_of r)" by (simp add: services_of_def)
  then have later: "svc < n" if "n \<in> set post" for n
    using that ss by (auto simp: sorted_append le_less)
  have "claClusterName e \<noteq> svc" if n: "n \<in> set post" and e: "e \<in> set (service_endpoints routes obs n)" for n e
  proof -
    obtain u where "claClusterName e = clusterName n u" using e by (auto simp: service_endpoints_def)
    with later [OF n] clusterName_le [of n u] show ?thesis by auto
  qed
  then have post: "map_of (rev (concat (map ?f post))) svc = None"
    unfolding map_of_eq_None_iff by auto metis
  have same: "e = ?e" if e: "e \<in> set (service_endpoints routes obs svc)" "claClusterName e = svc" for e
  proof -
    obtain u where u: "e = buildClusterLoadAssignment (clusterName svc u) (split_instances obs svc u)"
      using e(1) by (auto simp: service_endpoints_def)
    with e(2) have "u = []" by (auto simp: clusterName_def split: if_splits)
    with u show ?thesis by (simp add: clusterName_def)
  qed
  have mem: "?e \<in> set (service_endpoints routes obs svc)"
    using assms(3,4) by (force simp: service_endpoints_def clusterName_def)
  have own: "map_of (rev (?f svc)) svc = Some (ResEndpoint ?e)"
    unfolding rev_map
  proof (rule map_of_unique)
    show "\<exists>e \<in> set (rev (service_endpoints routes obs svc)). claClusterName e = svc"
      using mem by (intro bexI [of _ ?e]) simp_all
    show "\<forall>e \<in> set (rev (service_endpoints routes obs svc)). claClusterName e = svc \<longrightarrow> ResEndpoint e = ResEndpoint ?e"
      unfolding set_rev using same by blast
  qed
  have "map (\<lambda>x. (resource_name x, x)) (inputs (snapshot_input r routes obs lns) EndpointType) =
      concat (map ?f (services_of r))"
    by (simp add: built_endpoints_def map_concat comp_def)
  then show ?thesis
    using own post by (simp add: indexed_get [OF ix] ss map_add_def)
qed

text \<open>C39. Cluster names of different services can collide. Whatever the libraries, the registry and the
  store, when a service of the default namespace has a split to a version \<open>u\<close> and another
  listed service bears the name of that split's cluster, the service name, \<open>::\<close> and \<open>u\<close>,
  with no specification stored or with an unversioned split, then the route of the first
  service names a cluster whose endpoints are the live instances of the other service.\<close>

theorem cluster_collision:
  fixes svc u
  defines "other \<equiv> svc @ ''::'' @ u"
  assumes "lib_snapshots lib" and "BuildSnapshot lib r routes obs v = Inr s"
    and "{svc, other} \<subseteq> set (ListServices xds_Namespace r)" and "u \<noteq> []"
    and "u \<in> vwVersion ` set (splits_of routes svc)"
    and "lookupSpec routes other = None \<or> [] \<in> vwVersion ` set (splits_of routes other)"
    and "reg_inv (fst (obs other []))"
  shows "\<exists>rc is. go_get (GetResources lib s RouteType) (svc @ ''-route'') = Some (ResRoute rc)
      \<and> other \<in> referenced_clusters rc
      \<and> go_get (GetResources lib s EndpointType) other =
          Some (ResEndpoint \<lparr>claClusterName = other, claEndpoints = [map lbEndpoint is]\<rparr>)
      \<and> set is = {i. find_instance (fst (obs other [])) (key xds_Namespace other) (InstanceID i) = Some i
            \<and> Healthy i \<and> time_Sub (snd (obs other [])) (LastHeartbeat i) \<le> 15 * Second}"
proof -
  obtain lns where ix: "indexed lib s v (snapshot_input r routes obs lns)"
    using indexed_build [OF assms(2,3)] by blast
  have listed: "svc \<in> set (services_of r)" "other \<in> set (services_of r)" using assms(4) by (auto simp: services_of_def)
  obtain sp where sp: "sp \<in> set (splits_of routes other)" "vwVersion sp = []"
    using assms(7) by (auto simp: splits_of_def noVersionSplit_def)
  have "other \<in> referenced_clusters (service_route routes svc)"
    using assms(5,6) unfolding service_route_def referenced_clusters_build service_weights_def
    by (force simp: clusterName_def other_def)
  then show ?thesis
    using route_lookup [OF ix listed(1)] unversioned_endpoint [OF ix listed(2) sp] set_split_instances [of obs other "[]"] assms(8)
    by (auto simp: buildClusterLoadAssignment_def)
qed

theorem cluster_collision_witness:
  defines "ia \<equiv> sample_instance ''default'' ''a'' ''i1'' ''b''"
  defines "ib \<equiv> (sample_instance ''default'' ''a::b'' ''i1'' [])\<lparr>Address := ''10.9.9.9''\<rparr>"
  defines "routes \<equiv> Some (\<lambda>_. sample_store [sample_spec ''a'' [(''b'', 100)]])"
  defines "r \<equiv> sample_registry [ia, ib]"
  shows "\<exists>s is. BuildSnapshot ref_lib r routes (still r 6) ''v1'' = Inr s
    \<and> go_get (GetResources ref_lib s EndpointType) ''a::b'' =
        Some (ResEndpoint \<lparr>claClusterName = ''a::b'', claEndpoints = [map lbEndpoint is]\<rparr>)
    \<and> registered 5 ib \<in> set is"
proof -
  obtain s where s: "BuildSnapshot ref_lib r routes (still r 6) ''v1'' = Inr s" using ref_build by blast
  have ls: "set (ListServices xds_Namespace r) = {''a'', ''a::b''}"
    by (simp add: r_def ia_def ib_def build_eval)
  have spl: "splits_of routes ''a'' = [\<lparr>vwVersion = ''b'', Weight = 100\<rparr>]" "lookupSpec routes ''a::b'' = None"
    by (simp_all add: routes_def splits_of_def lookupSpec_def store_eval)
  have "find_instance r (key xds_Namespace ''a::b'') (InstanceID (registered 5 ib)) = Some (registered 5 ib)
      \<and> Healthy (registered 5 ib) \<and> time_Sub 6 (LastHeartbeat (registered 5 ib)) \<le> 15 * Second"
    by (simp add: r_def ia_def ib_def build_eval time_Sub_def duration_defs)
  moreover obtain xs where "go_get (GetResources ref_lib s EndpointType) ''a::b'' =
        Some (ResEndpoint \<lparr>claClusterName = ''a::b'', claEndpoints = [map lbEndpoint xs]\<rparr>)"
      "set xs = {i. find_instance r (key xds_Namespace ''a::b'') (InstanceID i) = Some i
         \<and> Healthy i \<and> time_Sub 6 (LastHeartbeat i) \<le> 15 * Second}"
    using cluster_collision [OF ref_lib_snapshots s, of "''a''" "''b''"] reg_inv_sample [of "[ia, ib]", folded r_def]
    by (auto simp: ls spl still_def)
  ultimately show ?thesis using s by (intro exI [of _ s] exI [of _ xs]) simp
qed

text \<open>An empty split version does not select the unversioned instances: its cluster gets every
  routable instance of the service, those of the other, versioned splits included.\<close>

lemma unversioned_split_gets_all:
  "split_instances obs svc [] =
     HealthyInstances (snd (obs svc [])) xds_Namespace svc xds_staleAfter (fst (obs svc []))
   \<and> (let r = sample_registry [sample_instance ''default'' ''a'' ''i1'' ''v1''];
          routes = Some (\<lambda>_. sample_store [sample_spec ''a'' [([], 50), (''v1'', 50)]])
      in map (length \<circ> concat \<circ> claEndpoints) (service_endpoints routes (still r 6) ''a'') = [1, 1])"
  by (simp add: split_instances_def service_endpoints_def splits_of_def lookupSpec_def store_eval
      build_eval HealthyInstances_def sortedInstances_def xds_staleAfter_def time_Sub_def duration_defs
      buildClusterLoadAssignment_def o_def)

end
