(* ===== verification/Mesh_Metrics.thy ===== *)
theory Mesh_Metrics
  imports Mesh_Prelude
begin

text \<open>
  The instrumentation of \<open>internal/metrics/metrics.go\<close>: the collectors that \<open>New\<close>
  creates, and the calls that the components make on them.

  The Prometheus client is not part of the repository. What the program contributes is the
  sequence of calls it makes, so a metrics registry in use is the trace of these calls; the
  level of a gauge or a counter is read off the trace.
\<close>

section \<open>Collectors\<close>

text \<open>The collectors of the \<open>Registry\<close> struct, one constructor per field.\<close>

datatype metric_field =
    HTTPRequestsTotal | HTTPRequestDuration | ServicesTotal | EndpointsTotal | EnvoyConnectionsTotal
  | XDSUpdatesTotal | XDSUpdateFailuresTotal | ConfigVersion | ReconciliationAttempts | ReconciliationFailures
  | ReconciliationDuration | StaleInstancesTransitioned

datatype collector_kind = CounterVec | HistogramVec | Gauge | Counter | Histogram

record Collector =
  colField :: metric_field
  colKind :: collector_kind
  colNamespace :: string
  colName :: string
  colLabels :: "string list"

definition factory :: "metric_field \<Rightarrow> collector_kind \<Rightarrow> string \<Rightarrow> string list \<Rightarrow> Collector" where
  "factory fld kind name labels =
     \<lparr>colField = fld, colKind = kind, colNamespace = ''controlplane'', colName = name, colLabels = labels\<rparr>"

definition metrics_New :: "Collector list" where
  "metrics_New =
     [factory HTTPRequestsTotal CounterVec ''http_requests_total'' [''path'', ''method'', ''status''],
      factory HTTPRequestDuration HistogramVec ''http_request_duration_seconds'' [''path'', ''method''],
      factory ServicesTotal Gauge ''services_total'' [],
      factory EndpointsTotal Gauge ''endpoints_total'' [],
      factory EnvoyConnectionsTotal Gauge ''envoy_connections_total'' [],
      factory XDSUpdatesTotal Counter ''xds_updates_total'' [],
      factory XDSUpdateFailuresTotal Counter ''xds_update_failures_total'' [],
      factory ConfigVersion Gauge ''config_version'' [],
      factory ReconciliationAttempts Counter ''reconciliation_attempts_total'' [],
      factory ReconciliationFailures Counter ''reconciliation_failures_total'' [],
      factory ReconciliationDuration Histogram ''reconciliation_duration_seconds'' [],
      factory StaleInstancesTransitioned Counter ''stale_instances_transitioned_total'' []]"

section \<open>Calls\<close>

text \<open>
  A call names a collector, gives the values of its labels (none for a collector without
  labels) and applies a method; the arguments are the values before their conversion to
  floating point.
\<close>

datatype metric_op = MInc | MDec | MAdd int | MSet int | MObserve duration

datatype metric_call = MetricCall metric_field "string list" metric_op

type_synonym metrics = "metric_call list"

text \<open>The calls on the collectors without labels.\<close>

abbreviation ServicesTotal_Set :: "int \<Rightarrow> metric_call" where
  "ServicesTotal_Set n \<equiv> MetricCall ServicesTotal [] (MSet n)"

abbreviation EndpointsTotal_Set :: "int \<Rightarrow> metric_call" where
  "EndpointsTotal_Set n \<equiv> MetricCall EndpointsTotal [] (MSet n)"

abbreviation EnvoyConnectionsTotal_Inc :: metric_call where
  "EnvoyConnectionsTotal_Inc \<equiv> MetricCall EnvoyConnectionsTotal [] MInc"

abbreviation EnvoyConnectionsTotal_Dec :: metric_call where
  "EnvoyConnectionsTotal_Dec \<equiv> MetricCall EnvoyConnectionsTotal [] MDec"

abbreviation XDSUpdatesTotal_Inc :: metric_call where
  "XDSUpdatesTotal_Inc \<equiv> MetricCall XDSUpdatesTotal [] MInc"

abbreviation XDSUpdateFailuresTotal_Inc :: metric_call where
  "XDSUpdateFailuresTotal_Inc \<equiv> MetricCall XDSUpdateFailuresTotal [] MInc"

abbreviation ConfigVersion_Set :: "uint64 \<Rightarrow> metric_call" where
  "ConfigVersion_Set v \<equiv> MetricCall ConfigVersion [] (MSet (uint v))"

abbreviation ReconciliationAttempts_Inc :: metric_call where
  "ReconciliationAttempts_Inc \<equiv> MetricCall ReconciliationAttempts [] MInc"

abbreviation ReconciliationFailures_Inc :: metric_call where
  "ReconciliationFailures_Inc \<equiv> MetricCall ReconciliationFailures [] MInc"

abbreviation ReconciliationDuration_Observe :: "duration \<Rightarrow> metric_call" where
  "ReconciliationDuration_Observe d \<equiv> MetricCall ReconciliationDuration [] (MObserve d)"

abbreviation StaleInstancesTransitioned_Add :: "int \<Rightarrow> metric_call" where
  "StaleInstancesTransitioned_Add n \<equiv> MetricCall StaleInstancesTransitioned [] (MAdd n)"

text \<open>The client library panics on a call with another number of label values than the collector has
  labels, and when a counter is decreased; a method that the kind does not have does not
  compile. A registry panics when two collectors have the same full name.\<close>

fun op_fits :: "collector_kind \<Rightarrow> metric_op \<Rightarrow> bool" where
  "op_fits Gauge op \<longleftrightarrow> (case op of MObserve d \<Rightarrow> False | _ \<Rightarrow> True)"
| "op_fits Histogram op \<longleftrightarrow> (case op of MObserve d \<Rightarrow> True | _ \<Rightarrow> False)"
| "op_fits HistogramVec op \<longleftrightarrow> (case op of MObserve d \<Rightarrow> True | _ \<Rightarrow> False)"
| "op_fits _ op \<longleftrightarrow> (case op of MInc \<Rightarrow> True | MAdd n \<Rightarrow> 0 \<le> n | _ \<Rightarrow> False)"

primrec call_fits :: "metric_call \<Rightarrow> bool" where
  "call_fits (MetricCall fld values op) \<longleftrightarrow>
     (\<exists>c \<in> set metrics_New. colField c = fld \<and> length (colLabels c) = length values \<and> op_fits (colKind c) op)"

section \<open>Reading a trace\<close>

text \<open>The level of the connection gauge, the calls of one kind, and the versions reported.\<close>

definition connections_gauge :: "metrics \<Rightarrow> int" where
  "connections_gauge tr =
     int (count_list tr EnvoyConnectionsTotal_Inc) - int (count_list tr EnvoyConnectionsTotal_Dec)"

primrec reported_version :: "metric_call \<Rightarrow> uint64 list" where
  "reported_version (MetricCall fld values op) =
     (case op of MSet n \<Rightarrow> if fld = ConfigVersion then [word_of_int n] else [] | _ \<Rightarrow> [])"

definition config_versions :: "metrics \<Rightarrow> uint64 list" where
  "config_versions tr = concat (map reported_version tr)"

lemma connections_gauge_append:
  "connections_gauge (tr @ tr') = connections_gauge tr + connections_gauge tr'"
  by (simp add: connections_gauge_def)

lemma config_versions_append [simp]:
  "config_versions (tr @ tr') = config_versions tr @ config_versions tr'"
  by (simp add: config_versions_def)

lemma config_versions_simps [simp]:
  "config_versions [] = []" "config_versions (call # tr) = reported_version call @ config_versions tr"
  by (simp_all add: config_versions_def)

lemma metrics_names_distinct: "distinct (map (\<lambda>c. colNamespace c @ ''_'' @ colName c) metrics_New)"
  by (simp add: metrics_New_def factory_def)

text \<open>The collector of a field is unique, so a call fits it by computation.\<close>

lemma call_fits_eval:
  "call_fits (MetricCall fld values op) \<longleftrightarrow>
     (case fld of
        HTTPRequestsTotal \<Rightarrow> length values = 3 \<and> op_fits CounterVec op
      | HTTPRequestDuration \<Rightarrow> length values = 2 \<and> op_fits HistogramVec op
      | f \<Rightarrow> values = [] \<and> op_fits
          (if f \<in> {ServicesTotal, EndpointsTotal, EnvoyConnectionsTotal, ConfigVersion} then Gauge
           else if f = ReconciliationDuration then Histogram else Counter) op)"
  by (cases fld) (auto simp: metrics_New_def factory_def)

end
