(* ===== verification/Mesh_Reconciler.thy ===== *)
theory Mesh_Reconciler
  imports Mesh_Snapshot Mesh_Metrics "HOL-Library.Signed_Division"
begin

text \<open>
  The reconciliation loop, \<open>internal/reconciliation/reconciler.go\<close>: one pass of
  \<open>Reconcile\<close> (sweep, version, build, publish, bookkeeping) on every path, the backoff at
  its 64-bit width, and the loop \<open>Run\<close>.

  Other goroutines serve API requests between the reads of a pass. Each read is given the
  state that it meets by the record \<open>pass_reads\<close>; \<open>quiet_reads\<close> is the case of a pass that
  nobody disturbs. The snapshot cache is \<open>go-control-plane\<close>'s: \<open>SetSnapshot\<close> is a
  parameter, with the law \<open>cache_serves\<close>.
\<close>

section \<open>Data\<close>

definition NodeID :: string where "NodeID = ''demo-envoy''"

definition maxBackoff :: duration where "maxBackoff = 30 * Second"

record 'snap Reconciler =
  recStaleAfter :: duration
  version :: uint64
  attempts :: uint64
  failures :: uint64
  recMetrics :: "metrics option"
  lastSnapshot :: "'snap option"

datatype reconcile_error = ErrBuild snapshot_error | ErrPublish lib_error

text \<open>The clock readings and the states that the reads of one pass meet.\<close>

record pass_reads =
  startTime :: time
  sweepTime :: time
  endTime :: time
  listRegistry :: InMemory
  splitReads :: observations
  routeReads :: "(string \<Rightarrow> Store) option"
  servicesRegistry :: InMemory
  countRegistry :: InMemory
  countReads :: "string \<Rightarrow> InMemory"

type_synonym ('ctx, 'snap, 'cache) set_snapshot =
  "'ctx \<Rightarrow> string \<Rightarrow> 'snap \<Rightarrow> 'cache \<Rightarrow> 'cache \<times> lib_error option"

section \<open>Operations\<close>

definition reconciler_New :: "duration \<Rightarrow> metrics option \<Rightarrow> 'snap Reconciler" where
  "reconciler_New staleAfter metricsReg =
     \<lparr>recStaleAfter = staleAfter, version = 0, attempts = 0, failures = 0, recMetrics = metricsReg,
      lastSnapshot = None\<rparr>"

text \<open>Calls on the metrics registry, skipped when it is nil.\<close>

definition metric :: "metric_call list \<Rightarrow> 'snap Reconciler \<Rightarrow> 'snap Reconciler" where
  "metric calls rc = rc\<lparr>recMetrics := map_option (\<lambda>tr. tr @ calls) (recMetrics rc)\<rparr>"

definition version_string :: "uint64 \<Rightarrow> string" where
  "version_string v = ''v'' @ show_nat (unat v)"

fun countEndpoints_loop :: "(string \<Rightarrow> InMemory) \<Rightarrow> string list \<Rightarrow> int \<Rightarrow> int" where
  "countEndpoints_loop reads [] tot = tot"
| "countEndpoints_loop reads (svc # rest) tot =
     (case GetService xds_Namespace svc (reads svc) of
        Inl err \<Rightarrow> countEndpoints_loop reads rest tot
      | Inr instances \<Rightarrow> countEndpoints_loop reads rest (tot + int (length instances)))"

definition countEndpoints :: "InMemory \<Rightarrow> (string \<Rightarrow> InMemory) \<Rightarrow> int" where
  "countEndpoints r reads = countEndpoints_loop reads (ListServices xds_Namespace r) 0"

text \<open>The failure path, the same for a failed build and a failed publication, and the deferred
  observation of the duration.\<close>

definition record_failure :: "'snap Reconciler \<Rightarrow> 'snap Reconciler" where
  "record_failure rc =
     metric [ReconciliationFailures_Inc, XDSUpdateFailuresTotal_Inc] (rc\<lparr>failures := failures rc + 1\<rparr>)"

definition observe_duration :: "pass_reads \<Rightarrow> 'snap Reconciler \<Rightarrow> 'snap Reconciler" where
  "observe_duration reads rc =
     metric [ReconciliationDuration_Observe (time_Sub (endTime reads) (startTime reads))] rc"

definition Reconcile ::
    "('any, 'snap) xds_lib \<Rightarrow> ('ctx, 'snap, 'cache) set_snapshot \<Rightarrow> 'ctx \<Rightarrow> pass_reads
      \<Rightarrow> InMemory \<times> 'cache \<times> 'snap Reconciler
      \<Rightarrow> (InMemory \<times> 'cache \<times> 'snap Reconciler) \<times> reconcile_error option" where
  "Reconcile lib SetSnapshot ctx reads = (\<lambda>(reg, cache, rc).
     let rc = rc\<lparr>attempts := attempts rc + 1\<rparr>;
         rc = metric [ReconciliationAttempts_Inc] rc;
         (reg, transitioned) = SweepStale (sweepTime reads) (recStaleAfter rc) reg;
         rc = (if length transitioned > 0
               then metric [StaleInstancesTransitioned_Add (int (length transitioned))] rc else rc);
         rc = rc\<lparr>version := version rc + 1\<rparr>;
         v = version rc
     in case BuildSnapshot lib (listRegistry reads) (routeReads reads) (splitReads reads) (version_string v) of
          Inl err \<Rightarrow>
            ((reg, cache, observe_duration reads (record_failure rc)), Some (ErrBuild err))
        | Inr snap \<Rightarrow>
            (case SetSnapshot ctx NodeID snap cache of
               (cache, Some err) \<Rightarrow>
                 ((reg, cache, observe_duration reads (record_failure rc)), Some (ErrPublish err))
             | (cache, None) \<Rightarrow>
                 let rc = rc\<lparr>lastSnapshot := Some snap\<rparr>;
                     rc = metric [XDSUpdatesTotal_Inc, ConfigVersion_Set v,
                            ServicesTotal_Set (int (length (ListServices xds_Namespace (servicesRegistry reads)))),
                            EndpointsTotal_Set (countEndpoints (countRegistry reads) (countReads reads))] rc
                 in ((reg, cache, observe_duration reads rc), None)))"

definition LastSnapshot :: "'snap Reconciler \<Rightarrow> 'snap option" where
  "LastSnapshot rc = lastSnapshot rc"

definition Attempts :: "'snap Reconciler \<Rightarrow> uint64" where
  "Attempts rc = attempts rc"

definition Failures :: "'snap Reconciler \<Rightarrow> uint64" where
  "Failures rc = failures rc"

text \<open>
  \<open>rand.Int63n\<close> panics unless its argument is positive and otherwise returns some number
  below it; \<open>rnd\<close> is the random draw. A panic is \<open>None\<close>.
\<close>

definition Int63n :: "nat \<Rightarrow> int \<Rightarrow> int option" where
  "Int63n rnd n = (if n \<le> 0 then None else Some (int rnd mod n))"

definition backoff :: "nat \<Rightarrow> nat \<Rightarrow> duration option" where
  "backoff rnd attempt =
     (let base = sint (push_bit attempt (1 :: 64 word) * word_of_int Second);
          base = (if base > maxBackoff then maxBackoff else base)
      in case Int63n rnd (base sdiv 5) of
           None \<Rightarrow> None
         | Some jitter \<Rightarrow> Some (int64 (base + jitter)))"

text \<open>
  The loop \<open>Run\<close>, along the passes that the schedule gives it: for each pass what it
  reads, what other goroutines made of the registry since the last one, the random draw, and
  whether the context is done when the pass ends. The waiting times are collected; the loop
  returns, panics, or is still running when the schedule is used up.
\<close>

record pass =
  passReads :: pass_reads
  interfere :: "InMemory \<Rightarrow> InMemory"
  draw :: nat
  ctxDone :: bool

datatype outcome = Returned | Panicked | Running

fun Run_loop ::
    "('any, 'snap) xds_lib \<Rightarrow> ('ctx, 'snap, 'cache) set_snapshot \<Rightarrow> 'ctx \<Rightarrow> duration \<Rightarrow> nat
      \<Rightarrow> pass list \<Rightarrow> InMemory \<times> 'cache \<times> 'snap Reconciler \<Rightarrow> duration list
      \<Rightarrow> (InMemory \<times> 'cache \<times> 'snap Reconciler) \<times> duration list \<times> outcome" where
  "Run_loop lib SetSnapshot ctx interval consecutiveFailures [] st waits = (st, waits, Running)"
| "Run_loop lib SetSnapshot ctx interval consecutiveFailures (p # rest) (reg, cr) waits =
     (let (st, err) = Reconcile lib SetSnapshot ctx (passReads p) (interfere p reg, cr);
          consecutiveFailures = (if err \<noteq> None then consecutiveFailures + 1 else 0)
      in case (if consecutiveFailures > 0
               then map_option (\<lambda>b. int64 (interval + b)) (backoff (draw p) consecutiveFailures)
               else Some interval) of
           None \<Rightarrow> (st, waits, Panicked)
         | Some wait \<Rightarrow>
             if ctxDone p then (st, waits @ [wait], Returned)
             else Run_loop lib SetSnapshot ctx interval consecutiveFailures rest st (waits @ [wait]))"

definition Run ::
    "('any, 'snap) xds_lib \<Rightarrow> ('ctx, 'snap, 'cache) set_snapshot \<Rightarrow> 'ctx \<Rightarrow> duration
      \<Rightarrow> pass list \<Rightarrow> InMemory \<times> 'cache \<times> 'snap Reconciler
      \<Rightarrow> (InMemory \<times> 'cache \<times> 'snap Reconciler) \<times> duration list \<times> outcome" where
  "Run lib SetSnapshot ctx interval passes st = Run_loop lib SetSnapshot ctx interval 0 passes st []"

section \<open>The cache\<close>

text \<open>What the reconciler relies on of the snapshot cache: a snapshot whose publication succeeds
  is the one served to the node from then on.\<close>

definition cache_serves ::
    "('ctx, 'snap, 'cache) set_snapshot \<Rightarrow> ('cache \<Rightarrow> string \<Rightarrow> 'snap option) \<Rightarrow> bool" where
  "cache_serves SetSnapshot GetSnapshot \<longleftrightarrow>
     (\<forall>ctx node snap cache cache'. SetSnapshot ctx node snap cache = (cache', None) \<longrightarrow>
        GetSnapshot cache' node = Some snap)"

text \<open>A cache that accepts every snapshot.\<close>

definition ref_SetSnapshot :: "(unit, 'snap, (string, 'snap) gomap) set_snapshot" where
  "ref_SetSnapshot ctx node snap cache = (go_set node snap cache, None)"

lemma ref_cache_serves: "cache_serves ref_SetSnapshot go_get"
  by (simp add: cache_serves_def ref_SetSnapshot_def)

section \<open>Lemmas\<close>

lemma metric_sel [simp]:
  "recStaleAfter (metric cs rc) = recStaleAfter rc" "version (metric cs rc) = version rc"
  "attempts (metric cs rc) = attempts rc" "failures (metric cs rc) = failures rc"
  "lastSnapshot (metric cs rc) = lastSnapshot rc"
  "recMetrics (metric cs rc) = map_option (\<lambda>tr. tr @ cs) (recMetrics rc)"
  by (simp_all add: metric_def)

lemmas reconcile_defs = record_failure_def observe_duration_def

text \<open>The reconciler when the build starts, and the three ways to end the pass.\<close>

definition begun :: "pass_reads \<Rightarrow> InMemory \<Rightarrow> 'snap Reconciler \<Rightarrow> 'snap Reconciler" where
  "begun reads reg rc =
     (let n = length (snd (SweepStale (sweepTime reads) (recStaleAfter rc) reg))
      in (metric (ReconciliationAttempts_Inc # (if n > 0 then [StaleInstancesTransitioned_Add (int n)] else []))
           rc)\<lparr>attempts := attempts rc + 1, version := version rc + 1\<rparr>)"

definition swept :: "pass_reads \<Rightarrow> 'snap Reconciler \<Rightarrow> InMemory \<Rightarrow> InMemory" where
  "swept reads rc reg = fst (SweepStale (sweepTime reads) (recStaleAfter rc) reg)"

definition pass_build ::
    "('any, 'snap) xds_lib \<Rightarrow> pass_reads \<Rightarrow> 'snap Reconciler \<Rightarrow> snapshot_error + 'snap" where
  "pass_build lib reads rc =
     BuildSnapshot lib (listRegistry reads) (routeReads reads) (splitReads reads)
       (version_string (version rc + 1))"

definition published :: "pass_reads \<Rightarrow> 'snap \<Rightarrow> 'snap Reconciler \<Rightarrow> 'snap Reconciler" where
  "published reads snap rc =
     metric [XDSUpdatesTotal_Inc, ConfigVersion_Set (version rc),
         ServicesTotal_Set (int (length (ListServices xds_Namespace (servicesRegistry reads)))),
         EndpointsTotal_Set (countEndpoints (countRegistry reads) (countReads reads))]
       (rc\<lparr>lastSnapshot := Some snap\<rparr>)"

lemma Reconcile_eq:
  "Reconcile lib SetSnapshot ctx reads (reg, cache, rc) =
     (case pass_build lib reads rc of
        Inl err \<Rightarrow> ((swept reads rc reg, cache, observe_duration reads (record_failure (begun reads reg rc))),
                     Some (ErrBuild err))
      | Inr snap \<Rightarrow>
          (case SetSnapshot ctx NodeID snap cache of
             (cache', Some err) \<Rightarrow>
               ((swept reads rc reg, cache', observe_duration reads (record_failure (begun reads reg rc))),
                Some (ErrPublish err))
           | (cache', None) \<Rightarrow>
               ((swept reads rc reg, cache', observe_duration reads (published reads snap (begun reads reg rc))),
                None)))"
proof -
  obtain reg' tr where sw: "SweepStale (sweepTime reads) (recStaleAfter rc) reg = (reg', tr)" by fastforce
  have "begun reads reg rc =
      (let rc = metric [ReconciliationAttempts_Inc] (rc\<lparr>attempts := attempts rc + 1\<rparr>);
           rc = (if length tr > 0 then metric [StaleInstancesTransitioned_Add (int (length tr))] rc else rc)
       in rc\<lparr>version := version rc + 1\<rparr>)"
    unfolding begun_def sw snd_conv by (cases rc; cases "recMetrics rc") (auto simp: metric_def Let_def)
  then show ?thesis
    by (simp add: Reconcile_def sw Let_def pass_build_def swept_def published_def
        split: sum.split prod.split option.split)
qed

lemma begun_sel [simp]:
  "version (begun reads reg rc) = version rc + 1" "attempts (begun reads reg rc) = attempts rc + 1"
  "failures (begun reads reg rc) = failures rc" "lastSnapshot (begun reads reg rc) = lastSnapshot rc"
  "recStaleAfter (begun reads reg rc) = recStaleAfter rc"
  by (simp_all add: begun_def Let_def)

lemma finish_sel [simp]:
  "version (observe_duration reads rc) = version rc" "attempts (observe_duration reads rc) = attempts rc"
  "failures (observe_duration reads rc) = failures rc" "lastSnapshot (observe_duration reads rc) = lastSnapshot rc"
  "version (record_failure rc) = version rc" "attempts (record_failure rc) = attempts rc"
  "failures (record_failure rc) = failures rc + 1" "lastSnapshot (record_failure rc) = lastSnapshot rc"
  "version (published reads s rc) = version rc" "attempts (published reads s rc) = attempts rc"
  "failures (published reads s rc) = failures rc" "lastSnapshot (published reads s rc) = Some s"
  by (simp_all add: reconcile_defs published_def)

subsection \<open>The bookkeeping\<close>

text \<open>
  The invariant of the counters: versions and attempts advance together, the metrics agree
  with the atomics, each attempt is a failure or an update, and the last snapshot carries the
  last version reported.
\<close>

definition rec_inv :: "('any, 'snap) xds_lib \<Rightarrow> nat \<Rightarrow> 'snap Reconciler \<Rightarrow> bool" where
  "rec_inv lib n rc \<longleftrightarrow>
     (\<exists>tr. recMetrics rc = Some tr
        \<and> attempts rc = of_nat n \<and> version rc = of_nat n
        \<and> count_list tr ReconciliationAttempts_Inc = n
        \<and> failures rc = of_nat (count_list tr ReconciliationFailures_Inc)
        \<and> count_list tr XDSUpdateFailuresTotal_Inc = count_list tr ReconciliationFailures_Inc
        \<and> count_list tr XDSUpdatesTotal_Inc + count_list tr ReconciliationFailures_Inc = n
        \<and> length (config_versions tr) = count_list tr XDSUpdatesTotal_Inc
        \<and> (n < 2 ^ 64 \<longrightarrow> sorted_wrt (<) (config_versions tr)
             \<and> list_all (\<lambda>v. 0 < unat v \<and> unat v \<le> n) (config_versions tr))
        \<and> (case lastSnapshot rc of
             None \<Rightarrow> config_versions tr = []
           | Some s \<Rightarrow> config_versions tr \<noteq> []
               \<and> (\<forall>t. GetVersion lib s t = version_string (last (config_versions tr)))))"

lemma rec_inv_New [inv_intros]: "rec_inv lib 0 (reconciler_New d (Some []))"
  by (simp add: rec_inv_def reconciler_New_def)

lemma pass_build_version:
  "lib_snapshots lib \<Longrightarrow> pass_build lib reads rc = Inr s \<Longrightarrow> GetVersion lib s t = version_string (version rc + 1)"
  unfolding pass_build_def by (drule (1) indexed_build) (auto simp: indexed_def)

lemma unat_Suc_word: "Suc n < 2 ^ 64 \<Longrightarrow> unat (of_nat n + 1 :: uint64) = Suc n"
proof -
  assume "Suc n < 2 ^ 64"
  then have "unat (of_nat (Suc n) :: uint64) = Suc n" by (simp only: unat_of_nat) simp
  then show ?thesis by (simp only: of_nat_Suc add.commute)
qed

lemma recMetrics_pass:
  "recMetrics (observe_duration reads' (record_failure (begun reads reg rc))) =
     map_option (\<lambda>tr. tr @ (ReconciliationAttempts_Inc #
       (if snd (SweepStale (sweepTime reads) (recStaleAfter rc) reg) = [] then []
        else [StaleInstancesTransitioned_Add (int (length (snd (SweepStale (sweepTime reads) (recStaleAfter rc) reg))))])) @
       [ReconciliationFailures_Inc, XDSUpdateFailuresTotal_Inc,
        ReconciliationDuration_Observe (time_Sub (endTime reads') (startTime reads'))]) (recMetrics rc)"
  "recMetrics (observe_duration reads' (published reads' s (begun reads reg rc))) =
     map_option (\<lambda>tr. tr @ (ReconciliationAttempts_Inc #
       (if snd (SweepStale (sweepTime reads) (recStaleAfter rc) reg) = [] then []
        else [StaleInstancesTransitioned_Add (int (length (snd (SweepStale (sweepTime reads) (recStaleAfter rc) reg))))])) @
       [XDSUpdatesTotal_Inc, ConfigVersion_Set (version rc + 1),
         ServicesTotal_Set (int (length (ListServices xds_Namespace (servicesRegistry reads')))),
         EndpointsTotal_Set (countEndpoints (countRegistry reads') (countReads reads')),
        ReconciliationDuration_Observe (time_Sub (endTime reads') (startTime reads'))]) (recMetrics rc)"
  by (simp_all add: reconcile_defs published_def begun_def Let_def option.map_comp comp_def)

lemma rec_inv_failure:
  "rec_inv lib n rc \<Longrightarrow> rec_inv lib (Suc n) (observe_duration reads' (record_failure (begun reads reg rc)))"
  unfolding rec_inv_def recMetrics_pass
  by (auto simp: add.commute list_all_iff dest!: bspec split: option.splits)

lemma sorted_versions_snoc:
  assumes "Suc n < 2 ^ 64" and "sorted_wrt (<) vs" and "list_all (\<lambda>v. 0 < unat v \<and> unat v \<le> n) vs"
  shows "sorted_wrt (<) (vs @ [of_nat n + 1 :: uint64])
    \<and> list_all (\<lambda>v. 0 < unat v \<and> unat v \<le> Suc n) (vs @ [of_nat n + 1])"
  using assms by (auto simp: sorted_wrt_append list_all_iff word_less_nat_alt unat_Suc_word less_Suc_eq_le)

lemma rec_inv_published:
  assumes "rec_inv lib n rc" and "\<And>t. GetVersion lib s t = version_string (version rc + 1)"
  shows "rec_inv lib (Suc n) (observe_duration reads' (published reads' s (begun reads reg rc)))"
proof -
  obtain tr where tr: "recMetrics rc = Some tr" "version rc = of_nat n"
    "n < 2 ^ 64 \<longrightarrow> sorted_wrt (<) (config_versions tr)
             \<and> list_all (\<lambda>v. 0 < unat v \<and> unat v \<le> n) (config_versions tr)"
    using assms(1) unfolding rec_inv_def by blast
  then have "Suc n < 2 ^ 64 \<longrightarrow> sorted_wrt (<) (config_versions tr @ [version rc + 1])
      \<and> list_all (\<lambda>v. 0 < unat v \<and> unat v \<le> Suc n) (config_versions tr @ [version rc + 1])"
    using sorted_versions_snoc [of n "config_versions tr"] by auto
  with assms tr(1) show ?thesis
    unfolding rec_inv_def recMetrics_pass by (auto simp: add.commute split: option.splits)
qed

lemma rec_inv_Reconcile:
  assumes "lib_snapshots lib" and "rec_inv lib n rc"
    and "Reconcile lib SetSnapshot ctx reads (reg, cache, rc) = ((reg', cache', rc'), err)"
  shows "rec_inv lib (Suc n) rc'"
proof (cases "pass_build lib reads rc")
  case (Inl e)
  with assms show ?thesis by (auto simp: Reconcile_eq intro: rec_inv_failure)
next
  case (Inr s)
  have "rec_inv lib (Suc n) (observe_duration reads (published reads s (begun reads reg rc)))"
    by (rule rec_inv_published [OF assms(2)]) (rule pass_build_version [OF assms(1) Inr])
  with Inr assms show ?thesis
    by (auto simp: Reconcile_eq intro: rec_inv_failure split: prod.splits option.splits)
qed

subsection \<open>Backoff\<close>

text \<open>The wait before the cap, \<open>2^attempt\<close> seconds as an integer, fits 63 bits up to attempt 33.\<close>

lemma backoff_base:
  "sint (push_bit attempt (1 :: 64 word) * word_of_int Second) = int64 (2 ^ attempt * Second)"
  by (simp add: int64_def push_bit_eq_mult)

lemma backoff_exact:
  assumes "attempt \<le> 33"
  shows "int64 (2 ^ attempt * Second) = 2 ^ attempt * Second"
proof -
  have "(2 :: int) ^ attempt \<le> 2 ^ 33" using assms by (intro power_increasing) simp_all
  moreover have "(0 :: int) \<le> 2 ^ attempt" by simp
  ultimately show ?thesis unfolding Second_def by (intro int64_id; simp; linarith)
qed

definition capped :: "nat \<Rightarrow> duration" where
  "capped attempt = min (2 ^ attempt) 30 * Second"

lemma capped_bounds: "Second \<le> capped attempt" "capped attempt \<le> 30 * Second"
  by (simp_all add: capped_def Second_def min_def)

lemma jitter_bounds:
  "0 \<le> int rnd mod (capped attempt div 5) \<and> int rnd mod (capped attempt div 5) < capped attempt div 5
   \<and> capped attempt div 5 \<le> 6 * Second"
proof -
  have "0 < capped attempt div 5" "capped attempt div 5 \<le> 6 * Second"
    using capped_bounds [of attempt] by (simp_all add: Second_def)
  then show ?thesis using pos_mod_bound pos_mod_sign by blast
qed

lemma backoff_some:
  assumes "attempt \<le> 33"
  shows "backoff rnd attempt = Some (capped attempt + int rnd mod (capped attempt div 5))"
proof -
  have base: "(if 2 ^ attempt * Second > maxBackoff then maxBackoff else 2 ^ attempt * Second) = capped attempt"
    by (auto simp: capped_def maxBackoff_def min_def Second_def)
  have "capped attempt sdiv 5 = capped attempt div 5"
    using capped_bounds(1) [of attempt] by (simp add: signed_divide_int_def Second_def)
  moreover have "int64 (capped attempt + int rnd mod (capped attempt div 5)) = capped attempt + int rnd mod (capped attempt div 5)"
    using jitter_bounds [of rnd attempt] capped_bounds [of attempt] unfolding Second_def
    by (intro int64_fits) linarith+
  ultimately show ?thesis
    using jitter_bounds [of rnd attempt]
    unfolding backoff_def backoff_base backoff_exact [OF assms] Let_def base Int63n_def by simp
qed

lemma backoff_34: "backoff rnd 34 = None"
  unfolding backoff_def backoff_base
  by (simp add: int64_def Second_def maxBackoff_def Int63n_def Let_def)

subsection \<open>The loop\<close>

definition next_failures :: "reconcile_error option \<Rightarrow> nat \<Rightarrow> nat" where
  "next_failures err cf = (if err \<noteq> None then cf + 1 else 0)"

definition pass_wait :: "duration \<Rightarrow> nat \<Rightarrow> nat \<Rightarrow> duration option" where
  "pass_wait interval rnd cf =
     (if cf > 0 then map_option (\<lambda>b. int64 (interval + b)) (backoff rnd cf) else Some interval)"

declare Run_loop.simps(2) [simp del]

lemma Run_loop_step:
  assumes "Reconcile lib SetSnapshot ctx (passReads p) (interfere p reg, cr) = (st, err)"
  shows "Run_loop lib SetSnapshot ctx interval cf (p # ps) (reg, cr) waits =
    (case pass_wait interval (draw p) (next_failures err cf) of
       None \<Rightarrow> (st, waits, Panicked)
     | Some w \<Rightarrow>
         if ctxDone p then (st, waits @ [w], Returned)
         else Run_loop lib SetSnapshot ctx interval (next_failures err cf) ps st (waits @ [w]))"
  unfolding next_failures_def pass_wait_def Run_loop.simps(2) assms Let_def prod.case ..

lemma pass_wait_34: "pass_wait interval rnd 34 = None"
  by (simp add: pass_wait_def backoff_34)

lemma pass_wait_bounds:
  assumes "cf \<le> 33" and "0 \<le> interval" and "interval \<le> 2 ^ 62"
  obtains w where "pass_wait interval rnd cf = Some w" "interval \<le> w" "w < interval + 36 * Second"
proof -
  let ?b = "capped cf + int rnd mod (capped cf div 5)"
  have b: "0 \<le> ?b" "?b < 36 * Second"
    using jitter_bounds [of rnd cf] capped_bounds [of cf] unfolding Second_def by linarith+
  moreover have "int64 (interval + ?b) = interval + ?b"
    using b assms(2,3) by (intro int64_fits) (simp_all add: Second_def)
  ultimately show ?thesis
    using that [of "if cf > 0 then interval + ?b else interval"] backoff_some [OF assms(1), of rnd]
    by (simp add: pass_wait_def Second_def)
qed

lemma Run_loop_inv:
  assumes "lib_snapshots lib"
    and "Run_loop lib SetSnapshot ctx interval cf ps (reg, cache, rc) waits = ((reg', cache', rc'), waits', out)"
    and "rec_inv lib n rc"
  shows "\<exists>k. rec_inv lib (n + k) rc' \<and> k \<le> length ps
    \<and> length waits + k = length waits' + (if out = Panicked then 1 else 0)"
  using assms(2,3)
proof (induction ps arbitrary: cf reg cache rc waits n)
  case (Cons p ps)
  obtain reg1 cache1 rc1 err where rec:
    "Reconcile lib SetSnapshot ctx (passReads p) (interfere p reg, cache, rc) = ((reg1, cache1, rc1), err)"
    by (metis prod.exhaust)
  note step = Cons.prems(1) [unfolded Run_loop_step [OF rec]]
  have inv: "rec_inv lib (Suc n) rc1" by (rule rec_inv_Reconcile [OF assms(1) Cons.prems(2) rec])
  show ?case
  proof (cases "pass_wait interval (draw p) (next_failures err cf) = None \<or> ctxDone p")
    case True
    with step inv show ?thesis by (auto intro!: exI [of _ 1] split: option.splits)
  next
    case False
    then obtain w where "pass_wait interval (draw p) (next_failures err cf) = Some w" by auto
    with False step have "Run_loop lib SetSnapshot ctx interval (next_failures err cf) ps (reg1, cache1, rc1)
        (waits @ [w]) = ((reg', cache', rc'), waits', out)" by simp
    from Cons.IH [OF this inv] obtain k where "rec_inv lib (Suc n + k) rc'" "k \<le> length ps"
      "length (waits @ [w]) + k = length waits' + (if out = Panicked then 1 else 0)" by blast
    then show ?thesis by (intro exI [of _ "Suc k"]) simp
  qed
qed auto

lemma Run_loop_waits:
  assumes "Run_loop lib SetSnapshot ctx interval cf ps st waits = (st', waits', out)"
    and "cf \<le> 33" and "0 \<le> interval" and "interval \<le> 2 ^ 62"
    and "\<forall>w \<in> set waits. interval \<le> w \<and> w < interval + 36 * Second"
  shows "(\<forall>w \<in> set waits'. interval \<le> w \<and> w < interval + 36 * Second)
    \<and> (out = Panicked \<longrightarrow> length waits + 33 \<le> length waits' + cf)"
  using assms(1,2,5)
proof (induction ps arbitrary: cf st waits)
  case (Cons p ps)
  obtain reg cr where st: "st = (reg, cr)" by (rule prod.exhaust)
  obtain st1 err where rec: "Reconcile lib SetSnapshot ctx (passReads p) (interfere p reg, cr) = (st1, err)"
    by (metis prod.exhaust)
  note step = Cons.prems(1) [unfolded st Run_loop_step [OF rec]]
  show ?case
  proof (cases "next_failures err cf = 34")
    case True
    with step Cons.prems(2,3) show ?thesis by (auto simp: pass_wait_34 next_failures_def split: if_splits)
  next
    case False
    with Cons.prems(2) have le: "next_failures err cf \<le> 33" by (auto simp: next_failures_def)
    obtain w where w: "pass_wait interval (draw p) (next_failures err cf) = Some w"
      "interval \<le> w" "w < interval + 36 * Second"
      by (rule pass_wait_bounds [OF le assms(3,4)])
    show ?thesis
    proof (cases "ctxDone p")
      case False
      with step w have "Run_loop lib SetSnapshot ctx interval (next_failures err cf) ps st1 (waits @ [w]) = (st', waits', out)"
        by simp
      from Cons.IH [OF this le] w Cons.prems(3) show ?thesis
        by (auto simp: next_failures_def split: if_splits)
    qed (use step w Cons.prems(3) in auto)
  qed
qed auto

text \<open>Which passes of a schedule fail, as long as passes follow one another.\<close>

fun pass_failures ::
    "('any, 'snap) xds_lib \<Rightarrow> ('ctx, 'snap, 'cache) set_snapshot \<Rightarrow> 'ctx \<Rightarrow> pass list
      \<Rightarrow> InMemory \<times> 'cache \<times> 'snap Reconciler \<Rightarrow> bool list" where
  "pass_failures lib SetSnapshot ctx [] st = []"
| "pass_failures lib SetSnapshot ctx (p # ps) (reg, cr) =
     (case Reconcile lib SetSnapshot ctx (passReads p) (interfere p reg, cr) of
        (st, err) \<Rightarrow> (err \<noteq> None) # pass_failures lib SetSnapshot ctx ps st)"

lemma length_pass_failures [simp]: "length (pass_failures lib SetSnapshot ctx ps st) = length ps"
  by (induction lib SetSnapshot ctx ps st rule: pass_failures.induct) (auto split: prod.split)

text \<open>Failures from index \<open>k\<close> on, 34 of them, after which the loop goes on until the last of them.\<close>

definition failing_window :: "bool list \<Rightarrow> nat \<Rightarrow> bool" where
  "failing_window bs k \<longleftrightarrow> k + 34 \<le> length bs \<and> (\<forall>j < 34. bs ! (k + j))"

lemma failing_window_success:
  assumes "cf \<le> 33" and "failing_window (replicate cf True @ False # bs) k"
  shows "\<exists>k'. k = Suc (cf + k') \<and> failing_window bs k'"
proof -
  have w: "\<forall>j < 34. (replicate cf True @ False # bs) ! (k + j)" "k + 34 \<le> Suc (cf + length bs)"
    using assms(2) by (simp_all add: failing_window_def)
  have "\<not> k \<le> cf"
  proof
    assume "k \<le> cf"
    then have "(replicate cf True @ False # bs) ! (k + (cf - k))" using spec [OF w(1), of "cf - k"] assms(1) by auto
    with \<open>k \<le> cf\<close> show False by (simp add: nth_append)
  qed
  then obtain k' where k: "k = Suc (cf + k')" using less_imp_Suc_add [of cf k] by auto
  have "bs ! (k' + j)" if "j < 34" for j
    using spec [OF w(1), of j] that by (simp add: k nth_append)
  with k w(2) show ?thesis by (simp add: failing_window_def)
qed

lemma failing_window_later: "failing_window bs k \<Longrightarrow> failing_window (replicate cf True @ False # bs) (Suc (cf + k))"
  by (simp add: failing_window_def nth_append)

lemma pass_wait_total: "cf \<le> 33 \<Longrightarrow> pass_wait interval rnd cf \<noteq> None"
  by (simp add: pass_wait_def backoff_some)

lemma failing_window_step:
  assumes "cf \<le> 33"
  shows "failing_window (replicate cf True @ (err \<noteq> None) # bs) k \<longleftrightarrow>
    (\<exists>k'. k + next_failures err cf = cf + 1 + k' \<and> failing_window (replicate (next_failures err cf) True @ bs) k')"
proof (cases "err = None")
  case True
  with failing_window_success [OF assms] failing_window_later [of bs _ cf] show ?thesis
    by (auto simp: next_failures_def)
qed (simp add: next_failures_def replicate_append_same [symmetric])

lemma failing_window_34: "failing_window (replicate 33 True @ True # bs) 0"
proof -
  have "(replicate 33 True @ True # bs) ! j" if "j < 34" for j
    using that by (cases "j < 33") (auto simp: nth_append less_Suc_eq numeral_eq_Suc)
  then show ?thesis by (simp add: failing_window_def)
qed

lemma next_failures_cases:
  assumes "cf \<le> 33"
  obtains "err \<noteq> None" "cf = 33" "next_failures err cf = 34" | "next_failures err cf \<le> 33"
  using assms by (cases "next_failures err cf \<le> 33") (auto simp: next_failures_def split: if_splits)

lemma Run_loop_panicked:
  assumes "Run_loop lib SetSnapshot ctx interval cf ps st waits = (st', waits', Panicked)" and "cf \<le> 33"
  shows "\<exists>k. failing_window (replicate cf True @ pass_failures lib SetSnapshot ctx ps st) k
    \<and> length waits' + cf = length waits + k + 33"
  using assms
proof (induction ps arbitrary: cf st waits)
  case (Cons p ps)
  obtain reg cr where st: "st = (reg, cr)" by (rule prod.exhaust)
  obtain st1 err where rec: "Reconcile lib SetSnapshot ctx (passReads p) (interfere p reg, cr) = (st1, err)"
    by (metis prod.exhaust)
  let ?bs = "pass_failures lib SetSnapshot ctx ps st1" and ?cf = "next_failures err cf"
  note step = Cons.prems(1) [unfolded st Run_loop_step [OF rec]]
  have bs: "pass_failures lib SetSnapshot ctx (p # ps) st = (err \<noteq> None) # ?bs" by (simp add: st rec)
  from Cons.prems(2) show ?case
  proof (rule next_failures_cases [of _ err])
    assume "err \<noteq> None" "cf = 33" "?cf = 34"
    with step failing_window_34 [of ?bs] show ?thesis unfolding bs by (auto simp: pass_wait_34 intro: exI [of _ 0])
  next
    assume le: "?cf \<le> 33"
    obtain w where w: "pass_wait interval (draw p) ?cf = Some w" using pass_wait_total [OF le] by fastforce
    with step have "Run_loop lib SetSnapshot ctx interval ?cf ps st1 (waits @ [w]) = (st', waits', Panicked)"
      by (auto split: if_splits)
    from Cons.IH [OF this le] obtain k' where k': "failing_window (replicate ?cf True @ ?bs) k'"
      "length waits' + ?cf = Suc (length waits) + k' + 33" by auto
    have cf: "?cf \<le> cf + 1 + k'" by (simp add: next_failures_def)
    have "failing_window (replicate cf True @ (err \<noteq> None) # ?bs) (cf + 1 + k' - ?cf)"
      unfolding failing_window_step [OF Cons.prems(2)] using k'(1) cf by (intro exI [of _ k']) simp
    with k'(2) cf show ?thesis unfolding bs by (intro exI [of _ "cf + 1 + k' - ?cf"]) simp
  qed
qed simp

lemma Run_loop_panics:
  assumes "Run_loop lib SetSnapshot ctx interval cf ps st waits = (st', waits', out)" and "cf \<le> 33"
    and "failing_window (replicate cf True @ pass_failures lib SetSnapshot ctx ps st) k"
    and "\<forall>j < k + 33 - cf. \<not> ctxDone (ps ! j)"
  shows "out = Panicked"
  using assms
proof (induction ps arbitrary: cf st waits k)
  case (Cons p ps)
  obtain reg cr where st: "st = (reg, cr)" by (rule prod.exhaust)
  obtain st1 err where rec: "Reconcile lib SetSnapshot ctx (passReads p) (interfere p reg, cr) = (st1, err)"
    by (metis prod.exhaust)
  let ?bs = "pass_failures lib SetSnapshot ctx ps st1" and ?cf = "next_failures err cf"
  note step = Cons.prems(1) [unfolded st Run_loop_step [OF rec]]
  have "failing_window (replicate cf True @ (err \<noteq> None) # ?bs) k" using Cons.prems(3) by (simp add: st rec)
  then obtain k' where k': "k + ?cf = cf + 1 + k'" "failing_window (replicate ?cf True @ ?bs) k'"
    using failing_window_step [OF Cons.prems(2)] by blast
  from Cons.prems(2) show ?case
  proof (rule next_failures_cases [of _ err])
    assume "?cf = 34"
    with step show ?thesis by (simp add: pass_wait_34)
  next
    assume le: "?cf \<le> 33"
    obtain w where w: "pass_wait interval (draw p) ?cf = Some w" using pass_wait_total [OF le] by fastforce
    have "\<not> ctxDone p" using spec [OF Cons.prems(4), of 0] k'(1) le by simp
    with step w have run: "Run_loop lib SetSnapshot ctx interval ?cf ps st1 (waits @ [w]) = (st', waits', out)" by simp
    have "\<forall>j < k' + 33 - ?cf. \<not> ctxDone (ps ! j)"
    proof (intro allI impI)
      fix j assume "j < k' + 33 - ?cf"
      then show "\<not> ctxDone (ps ! j)" using spec [OF Cons.prems(4), of "Suc j"] k'(1) by simp
    qed
    with Cons.IH [OF run le k'(2)] show ?thesis .
  qed
qed (simp add: failing_window_def)

subsection \<open>An undisturbed pass\<close>

definition quiet_reads :: "time \<Rightarrow> duration \<Rightarrow> InMemory \<Rightarrow> (string \<Rightarrow> Store) option \<Rightarrow> pass_reads" where
  "quiet_reads t staleAfter reg routes =
     (let reg = fst (SweepStale t staleAfter reg)
      in \<lparr>startTime = t, sweepTime = t, endTime = t, listRegistry = reg, splitReads = still reg t,
          routeReads = routes, servicesRegistry = reg, countRegistry = reg, countReads = (\<lambda>_. reg)\<rparr>)"

lemma quiet_sel [simp]:
  "sweepTime (quiet_reads t d reg routes) = t"
  "listRegistry (quiet_reads t d reg routes) = fst (SweepStale t d reg)"
  "splitReads (quiet_reads t d reg routes) = still (fst (SweepStale t d reg)) t"
  "routeReads (quiet_reads t d reg routes) = routes"
  by (simp_all add: quiet_reads_def Let_def)

lemma ListServices_SweepStale:
  assumes "reg_inv r"
  shows "ListServices ns (fst (SweepStale t d r)) = ListServices ns r"
proof (rule strict_sorted_equal)
  have inv: "reg_inv (fst (SweepStale t d r))" by (rule reg_inv_SweepStale [OF assms])
  show "sorted_wrt (<) (ListServices ns (fst (SweepStale t d r)))" by (rule ListServices_strict [OF inv])
  show "sorted_wrt (<) (ListServices ns r)" by (rule ListServices_strict [OF assms])
  show "set (ListServices ns (fst (SweepStale t d r))) = set (ListServices ns r)"
    by (auto simp: set_ListServices [OF inv] set_ListServices [OF assms] service_names_def find_SweepStale)
qed

text \<open>The instances that are healthy after a sweep.\<close>

lemma healthy_after_sweep:
  "find_instance (fst (SweepStale t d r)) k iid = Some i \<and> Healthy i \<longleftrightarrow>
     find_instance r k iid = Some i \<and> Healthy i \<and> (d \<le> 0 \<or> \<not> stale t d i)"
  by (auto simp: find_SweepStale sweep_instance_def stale_def split: if_splits
      dest: arg_cong [where f = Healthy])

lemma quiet_endpoints:
  assumes "reg_inv reg" and "routes_ok routes" and "\<And>n. n \<in> set (ListServices xds_Namespace reg) \<Longrightarrow> CHR '':'' \<notin> set n"
    and "indexed lib s v (snapshot_input (fst (SweepStale t d reg)) routes (still (fst (SweepStale t d reg)) t) lns)"
    and "svc \<in> set (ListServices xds_Namespace reg)" and "sp \<in> set (splits_of routes svc)"
  shows "\<exists>is. go_get (GetResources lib s EndpointType) (clusterName svc (vwVersion sp)) =
        Some (ResEndpoint \<lparr>claClusterName = clusterName svc (vwVersion sp), claEndpoints = [map lbEndpoint is]\<rparr>)
      \<and> set is = {i. find_instance reg (key xds_Namespace svc) (InstanceID i) = Some i \<and> Healthy i
            \<and> time_Sub t (LastHeartbeat i) \<le> 15 * Second
            \<and> (d \<le> 0 \<or> time_Sub t (LastHeartbeat i) \<le> d)
            \<and> (vwVersion sp = [] \<or> Version i = vwVersion sp)}"
proof -
  let ?reg = "fst (SweepStale t d reg)"
  have inv: "reg_inv ?reg" by (rule reg_inv_SweepStale [OF assms(1)])
  have svcs: "set (services_of ?reg) = set (ListServices xds_Namespace reg)"
    by (simp add: services_of_def ListServices_SweepStale [OF assms(1)])
  have "go_get (GetResources lib s EndpointType) (clusterName svc (vwVersion sp)) =
    Some (ResEndpoint (buildClusterLoadAssignment (clusterName svc (vwVersion sp))
            (split_instances (still ?reg t) svc (vwVersion sp))))"
    by (rule endpoint_lookup [OF assms(4,2)]) (use assms(3,5,6) svcs in auto)
  moreover have "i \<in> set (split_instances (still ?reg t) svc (vwVersion sp)) \<longleftrightarrow>
      (find_instance ?reg (key xds_Namespace svc) (InstanceID i) = Some i \<and> Healthy i)
      \<and> time_Sub t (LastHeartbeat i) \<le> 15 * Second \<and> (vwVersion sp = [] \<or> Version i = vwVersion sp)" for i
    using set_split_instances [of "still ?reg t" svc "vwVersion sp"] inv by (auto simp: still_def)
  ultimately show ?thesis
    by (intro exI [of _ "split_instances (still ?reg t) svc (vwVersion sp)"])
      (auto simp: healthy_after_sweep stale_def buildClusterLoadAssignment_def linorder_not_less)
qed

text \<open>An undisturbed pass succeeds, and the cache then serves what was built from the swept registry.\<close>

lemma quiet_pass:
  assumes "lib_packs lib rds_name valid" and "lib_snapshots lib" and "lib_consistency lib rds_name"
    and "cache_serves SetSnapshot GetSnapshot" and "\<forall>s c. snd (SetSnapshot ctx NodeID s c) = None"
    and "reg_inv reg" and "\<forall>n \<in> set (ListServices xds_Namespace reg). valid n"
  shows "\<exists>cache' rc' s lns.
      Reconcile lib SetSnapshot ctx (quiet_reads t (recStaleAfter rc) reg routes) (reg, cache, rc)
        = ((fst (SweepStale t (recStaleAfter rc) reg), cache', rc'), None)
    \<and> GetSnapshot cache' NodeID = Some s
    \<and> indexed lib s (version_string (version rc + 1))
        (snapshot_input (fst (SweepStale t (recStaleAfter rc) reg)) routes
           (still (fst (SweepStale t (recStaleAfter rc) reg)) t) lns)
    \<and> built_listeners lib 0 (services_of (fst (SweepStale t (recStaleAfter rc) reg))) lns"
proof -
  let ?reads = "quiet_reads t (recStaleAfter rc) reg routes"
  let ?reg = "fst (SweepStale t (recStaleAfter rc) reg)"
  obtain s where s: "pass_build lib ?reads rc = Inr s"
    using build_total [OF assms(1-3), of ?reg routes "still ?reg t" "version_string (version rc + 1)"] assms(7)
    by (auto simp: pass_build_def ListServices_SweepStale [OF assms(6)])
  obtain cache' where c: "SetSnapshot ctx NodeID s cache = (cache', None)"
    using assms(5) by (metis prod.collapse)
  have "GetSnapshot cache' NodeID = Some s" using assms(4) c by (simp add: cache_serves_def)
  moreover have "Reconcile lib SetSnapshot ctx ?reads (reg, cache, rc) =
      ((?reg, cache', observe_duration ?reads (published ?reads s (begun ?reads reg rc))), None)"
    by (simp add: Reconcile_eq s c swept_def)
  ultimately show ?thesis
    using indexed_build [OF assms(2) s [unfolded pass_build_def]] by auto
qed

section \<open>Properties\<close>

text \<open>C15. One pass, on every path: the registry is swept and both counters advance by one whatever
  happens; a failed build leaves the cache and the last snapshot as they were, a failed
  publication leaves the last snapshot, and both count one failure; a pass that succeeds has
  built a consistent snapshot with the new version on every resource type, and this snapshot
  is both the one the cache serves and the one \<open>LastSnapshot\<close> returns.\<close>

theorem Reconcile_spec:
  assumes "lib_snapshots lib" and "cache_serves SetSnapshot GetSnapshot"
    and "Reconcile lib SetSnapshot ctx reads (reg, cache, rc) = ((reg', cache', rc'), res)"
  shows "reg' = fst (SweepStale (sweepTime reads) (recStaleAfter rc) reg)
    \<and> Attempts rc' = Attempts rc + 1 \<and> version rc' = version rc + 1
    \<and> (case res of
         Some (ErrBuild e) \<Rightarrow> cache' = cache \<and> LastSnapshot rc' = LastSnapshot rc \<and> Failures rc' = Failures rc + 1
       | Some (ErrPublish e) \<Rightarrow> LastSnapshot rc' = LastSnapshot rc \<and> Failures rc' = Failures rc + 1
       | None \<Rightarrow> Failures rc' = Failures rc
           \<and> (\<exists>s. LastSnapshot rc' = Some s \<and> GetSnapshot cache' NodeID = Some s \<and> Consistent lib s = None
                \<and> (\<forall>t. GetVersion lib s t = ''v'' @ show_nat (unat (version rc')))))"
proof (cases "pass_build lib reads rc")
  case (Inl e)
  with assms(3) show ?thesis
    by (auto simp: Reconcile_eq swept_def Attempts_def Failures_def LastSnapshot_def)
next
  case (Inr s)
  have "Consistent lib s = None"
    using Inr by (auto simp: pass_build_def BuildSnapshot_Inr)
  with Inr assms show ?thesis
    using pass_build_version [OF assms(1) Inr]
    by (auto simp: Reconcile_eq swept_def Attempts_def Failures_def LastSnapshot_def cache_serves_def
        version_string_def split: prod.splits option.splits)
qed

definition sample_reads :: "Instance list \<Rightarrow> pass_reads" where
  "sample_reads is = quiet_reads 6 (15 * Second) (sample_registry is) None"

definition sample_reconciler :: "'snap Reconciler" where
  "sample_reconciler = reconciler_New (15 * Second) (Some [])"

theorem Reconcile_spec_witness:
  "let rc = sample_reconciler; reads = sample_reads [sample_instance ''default'' ''a'' ''i1'' []] in
   \<exists>reg' cache' rc' s.
     Reconcile ref_lib ref_SetSnapshot () reads (New, [], rc) = ((reg', cache', rc'), None)
     \<and> LastSnapshot rc' = Some s \<and> go_get cache' NodeID = Some s \<and> GetVersion ref_lib s ClusterType = ''v1''"
proof -
  let ?reads = "sample_reads [sample_instance ''default'' ''a'' ''i1'' []]"
  obtain s where s: "pass_build ref_lib ?reads sample_reconciler = Inr s"
    unfolding pass_build_def using ref_build by blast
  obtain reg' cache' rc' where rec:
    "Reconcile ref_lib ref_SetSnapshot () ?reads (New, [], sample_reconciler) = ((reg', cache', rc'), None)"
    by (simp add: Reconcile_eq s ref_SetSnapshot_def)
  from Reconcile_spec [OF ref_lib_snapshots ref_cache_serves rec]
  obtain t where t: "LastSnapshot rc' = Some t" "go_get cache' NodeID = Some t" "version rc' = 1"
    "GetVersion ref_lib t ClusterType = ''v'' @ show_nat (unat (version rc'))"
    by (auto simp: sample_reconciler_def reconciler_New_def)
  have "''v'' @ show_nat 1 = ''v1''" by code_simp
  with t(3,4) have "GetVersion ref_lib t ClusterType = ''v1''" by simp
  with t rec show ?thesis unfolding Let_def by blast
qed

text \<open>C8. End to end, when the names of the services of the default namespace are accepted by the libraries
  and contain no colon: an undisturbed pass at time \<open>t\<close> succeeds, and the snapshot then
  served to Envoy has, for every service of the default namespace and every split of it,
  exactly the registered instances of the split's version that were healthy and whose last
  heartbeat is within both bounds, the configured one (when it is positive) and the builder's
  own 15 seconds. A split with the empty version gets the instances of every version.\<close>

theorem Reconcile_serves_live_instances:
  assumes "lib_packs lib rds_name valid" and "lib_snapshots lib" and "lib_consistency lib rds_name"
    and "cache_serves SetSnapshot GetSnapshot" and "\<forall>s c. snd (SetSnapshot ctx NodeID s c) = None"
    and "reg_inv reg" and "routes_ok routes"
    and "\<forall>n \<in> set (ListServices xds_Namespace reg). valid n \<and> CHR '':'' \<notin> set n"
  shows "\<exists>reg' cache' rc' s.
      Reconcile lib SetSnapshot ctx (quiet_reads t (recStaleAfter rc) reg routes) (reg, cache, rc)
        = ((reg', cache', rc'), None)
    \<and> GetSnapshot cache' NodeID = Some s
    \<and> (\<forall>svc \<in> set (ListServices xds_Namespace reg). \<forall>sp \<in> set (splits_of routes svc). \<exists>is.
         go_get (GetResources lib s EndpointType) (clusterName svc (vwVersion sp)) =
           Some (ResEndpoint \<lparr>claClusterName = clusterName svc (vwVersion sp), claEndpoints = [map lbEndpoint is]\<rparr>)
         \<and> set is = {i. find_instance reg (key xds_Namespace svc) (InstanceID i) = Some i \<and> Healthy i
              \<and> time_Sub t (LastHeartbeat i) \<le> 15 * Second
              \<and> (recStaleAfter rc \<le> 0 \<or> time_Sub t (LastHeartbeat i) \<le> recStaleAfter rc)
              \<and> (vwVersion sp = [] \<or> Version i = vwVersion sp)})"
proof -
  have "\<forall>n \<in> set (ListServices xds_Namespace reg). valid n" using assms(8) by blast
  from quiet_pass [OF assms(1-6) this, of t rc routes cache] obtain cache' rc' s lns where pass:
    "Reconcile lib SetSnapshot ctx (quiet_reads t (recStaleAfter rc) reg routes) (reg, cache, rc)
       = ((fst (SweepStale t (recStaleAfter rc) reg), cache', rc'), None)" "GetSnapshot cache' NodeID = Some s"
    "indexed lib s (version_string (version rc + 1))
        (snapshot_input (fst (SweepStale t (recStaleAfter rc) reg)) routes
           (still (fst (SweepStale t (recStaleAfter rc) reg)) t) lns)"
    by blast
  show ?thesis using pass(1,2) quiet_endpoints [OF assms(6,7) _ pass(3)] assms(8) by blast
qed

theorem Reconcile_serves_live_instances_witness:
  "let reg = sample_registry [sample_instance ''default'' ''a'' ''i1'' []]; rc = sample_reconciler in
   \<exists>reg' cache' rc' s is.
     Reconcile ref_lib ref_SetSnapshot () (quiet_reads 6 (recStaleAfter rc) reg None) (reg, [], rc) = ((reg', cache', rc'), None)
     \<and> go_get cache' NodeID = Some s
     \<and> go_get (GetResources ref_lib s EndpointType) ''a'' =
         Some (ResEndpoint \<lparr>claClusterName = ''a'', claEndpoints = [map lbEndpoint is]\<rparr>)
     \<and> registered 5 (sample_instance ''default'' ''a'' ''i1'' []) \<in> set is"
proof -
  let ?i = "sample_instance ''default'' ''a'' ''i1'' []"
  let ?reg = "sample_registry [?i]"
  let ?rc = "sample_reconciler :: ref_snap Reconciler"
  have ls: "ListServices xds_Namespace ?reg = [''a'']" by (simp add: build_eval)
  have sp: "splits_of None ''a'' = [\<lparr>vwVersion = [], Weight = 100\<rparr>]"
    by (simp add: splits_of_def lookupSpec_def noVersionSplit_def)
  have live: "find_instance ?reg (key xds_Namespace ''a'') (InstanceID (registered 5 ?i)) = Some (registered 5 ?i)
      \<and> Healthy (registered 5 ?i) \<and> time_Sub 6 (LastHeartbeat (registered 5 ?i)) \<le> 15 * Second"
    by (simp add: build_eval time_Sub_def duration_defs)
  have bound: "recStaleAfter ?rc = 15 * Second" by (simp add: sample_reconciler_def reconciler_New_def)
  obtain reg' cache' rc' s where rec:
    "Reconcile ref_lib ref_SetSnapshot () (quiet_reads 6 (recStaleAfter ?rc) ?reg None) (?reg, [], ?rc) = ((reg', cache', rc'), None)"
    "go_get cache' NodeID = Some s"
    "\<forall>svc \<in> set (ListServices xds_Namespace ?reg). \<forall>sp \<in> set (splits_of None svc). \<exists>is.
         go_get (GetResources ref_lib s EndpointType) (clusterName svc (vwVersion sp)) =
           Some (ResEndpoint \<lparr>claClusterName = clusterName svc (vwVersion sp), claEndpoints = [map lbEndpoint is]\<rparr>)
         \<and> set is = {i. find_instance ?reg (key xds_Namespace svc) (InstanceID i) = Some i \<and> Healthy i
              \<and> time_Sub 6 (LastHeartbeat i) \<le> 15 * Second
              \<and> (recStaleAfter ?rc \<le> 0 \<or> time_Sub 6 (LastHeartbeat i) \<le> recStaleAfter ?rc)
              \<and> (vwVersion sp = [] \<or> Version i = vwVersion sp)}"
    using Reconcile_serves_live_instances [OF ref_lib_packs ref_lib_snapshots ref_lib_consistency
        ref_cache_serves, of "()" ?reg None 6 ?rc "[]"]
    by (auto simp: ref_SetSnapshot_def reg_inv_sample routes_ok_def ls)
  from rec(3) obtain xs where "go_get (GetResources ref_lib s EndpointType) ''a'' =
      Some (ResEndpoint \<lparr>claClusterName = ''a'', claEndpoints = [map lbEndpoint xs]\<rparr>)"
    "registered 5 ?i \<in> set xs"
    unfolding ls using live bound by (auto simp: sp clusterName_def)
  with rec(1,2) show ?thesis unfolding Let_def by blast
qed

text \<open>C16. The bookkeeping of a run, whatever the other goroutines do in between: every pass is counted
  once as an attempt and once as an update or a failure, in the atomics as in the metrics; the
  published versions strictly increase; and the last snapshot carries the last version
  reported.\<close>

theorem Run_bookkeeping:
  assumes "lib_snapshots lib" and "length ps < 2 ^ 64"
    and "Run lib SetSnapshot ctx interval ps (reg, cache, reconciler_New d (Some [])) = ((reg', cache', rc'), waits, out)"
  shows "\<exists>tr. recMetrics rc' = Some tr
    \<and> count_list tr ReconciliationAttempts_Inc = length waits + (if out = Panicked then 1 else 0)
    \<and> unat (Attempts rc') = count_list tr ReconciliationAttempts_Inc
    \<and> unat (Failures rc') = count_list tr ReconciliationFailures_Inc
    \<and> count_list tr XDSUpdatesTotal_Inc + count_list tr ReconciliationFailures_Inc
        = count_list tr ReconciliationAttempts_Inc
    \<and> sorted_wrt (<) (config_versions tr) \<and> length (config_versions tr) = count_list tr XDSUpdatesTotal_Inc
    \<and> (case LastSnapshot rc' of None \<Rightarrow> config_versions tr = []
       | Some s \<Rightarrow> \<forall>t. GetVersion lib s t = version_string (last (config_versions tr)))"
proof -
  obtain k where k: "rec_inv lib k rc'" "k \<le> length ps" "k = length waits + (if out = Panicked then 1 else 0)"
    using Run_loop_inv [OF assms(1) assms(3) [unfolded Run_def] rec_inv_New] by auto
  then have small: "k < 2 ^ 64" using assms(2) by simp
  obtain tr where tr: "recMetrics rc' = Some tr" "attempts rc' = of_nat k"
    "count_list tr ReconciliationAttempts_Inc = k"
    "failures rc' = of_nat (count_list tr ReconciliationFailures_Inc)"
    "count_list tr XDSUpdatesTotal_Inc + count_list tr ReconciliationFailures_Inc = k"
    "length (config_versions tr) = count_list tr XDSUpdatesTotal_Inc"
    "sorted_wrt (<) (config_versions tr)"
    "case lastSnapshot rc' of None \<Rightarrow> config_versions tr = []
       | Some s \<Rightarrow> config_versions tr \<noteq> []
               \<and> (\<forall>t. GetVersion lib s t = version_string (last (config_versions tr)))"
    using k(1) small unfolding rec_inv_def by blast
  have "unat (attempts rc') = k" using small by (simp only: tr(2) unat_of_nat) simp
  moreover have "unat (failures rc') = count_list tr ReconciliationFailures_Inc"
    using small tr(5) by (simp only: tr(4) unat_of_nat) simp
  ultimately show ?thesis
    using tr k(3) by (auto simp: Attempts_def Failures_def LastSnapshot_def split: option.splits)
qed

definition sample_pass :: pass where
  "sample_pass = \<lparr>passReads = sample_reads [], interfere = id, draw = 0, ctxDone = False\<rparr>"

theorem Run_bookkeeping_witness:
  "\<exists>st' waits out tr. Run ref_lib ref_SetSnapshot () 1 [sample_pass, sample_pass] (New, [], reconciler_New 0 (Some []))
       = (st', waits, out) \<and> recMetrics (snd (snd st')) = Some tr \<and> sorted_wrt (<) (config_versions tr)"
proof -
  obtain reg' cache' rc' waits out where run:
    "Run ref_lib ref_SetSnapshot () 1 [sample_pass, sample_pass] (New, [], reconciler_New 0 (Some []))
       = ((reg', cache', rc'), waits, out)" by (metis prod.exhaust)
  with Run_bookkeeping [OF ref_lib_snapshots _ run] show ?thesis by fastforce
qed

text \<open>C30. Bounds of the waiting times, for an interval from 0 to \<open>2\<^sup>6\<^sup>2\<close> nanoseconds: after every pass the loop waits at least the interval and less
  than 36 seconds more; and it panics only after 33 waits, that is in no shorter run.\<close>

theorem Run_waits_bounded:
  assumes "Run lib SetSnapshot ctx interval ps st = (st', waits, out)" and "0 \<le> interval" and "interval \<le> 2 ^ 62"
  shows "(\<forall>w \<in> set waits. interval \<le> w \<and> w < interval + 36 * Second)
    \<and> (out = Panicked \<longrightarrow> 33 \<le> length waits)"
  using Run_loop_waits [OF assms(1) [unfolded Run_def] _ assms(2,3)] by simp

text \<open>A cache that rejects every snapshot.\<close>

definition rejecting_SetSnapshot :: "(unit, 'snap, (string, 'snap) gomap) set_snapshot" where
  "rejecting_SetSnapshot ctx node snap cache = (cache, Some ''unavailable'')"

theorem Run_waits_bounded_witness:
  "\<exists>st' waits out. Run ref_lib rejecting_SetSnapshot () Second [sample_pass] (New, [], reconciler_New 0 (Some []))
       = (st', waits, out) \<and> (\<forall>w \<in> set waits. Second \<le> w \<and> w < Second + 36 * Second)"
proof -
  obtain st' waits out where run:
    "Run ref_lib rejecting_SetSnapshot () Second [sample_pass] (New, [], reconciler_New 0 (Some [])) = (st', waits, out)"
    by (metis prod.exhaust)
  have "\<forall>w \<in> set waits. Second \<le> w \<and> w < Second + 36 * Second"
    using Run_waits_bounded [OF run] by (simp add: Second_def)
  with run show ?thesis by blast
qed

text \<open>C40. The backoff overflows after 34 failures in a row, whatever makes the passes fail. A run that
  meets 34 failed passes in a row, with the context not done before the last of them, panics;
  and a run that panics has just had 34 failed passes in a row and waited after every pass but
  the last. In between a successful pass starts the count again.\<close>

theorem Run_panics_on_34th_failure:
  fixes ps
  assumes "Run lib SetSnapshot ctx interval ps st = (st', waits, out)"
  defines "failed \<equiv> pass_failures lib SetSnapshot ctx ps st"
  shows "(out = Panicked \<longrightarrow> (\<exists>k. k + 34 \<le> length ps \<and> (\<forall>j < 34. failed ! (k + j)) \<and> length waits = k + 33))
    \<and> (k + 34 \<le> length ps \<and> (\<forall>j < 34. failed ! (k + j)) \<and> (\<forall>j < k + 33. \<not> ctxDone (ps ! j)) \<longrightarrow> out = Panicked)"
proof -
  note run = assms(1) [unfolded Run_def]
  have "\<exists>k. k + 34 \<le> length ps \<and> (\<forall>j < 34. failed ! (k + j)) \<and> length waits = k + 33" if "out = Panicked"
    using Run_loop_panicked [OF run [unfolded that]] by (auto simp: failed_def failing_window_def)
  moreover have "out = Panicked"
    if "k + 34 \<le> length ps \<and> (\<forall>j < 34. failed ! (k + j)) \<and> (\<forall>j < k + 33. \<not> ctxDone (ps ! j))"
    using Run_loop_panics [OF run, of k] that by (simp add: failed_def failing_window_def)
  ultimately show ?thesis by blast
qed

lemma rejecting_fails:
  "pass_failures ref_lib rejecting_SetSnapshot () ps st = replicate (length ps) True"
proof (induction ps arbitrary: st)
  case (Cons p ps)
  obtain reg cache rc where st: "st = (reg, cache, rc)" by (metis prod.exhaust)
  have "snd (Reconcile ref_lib rejecting_SetSnapshot () (passReads p) (interfere p reg, cache, rc)) \<noteq> None"
    by (auto simp: Reconcile_eq rejecting_SetSnapshot_def split: sum.split)
  then show ?case by (auto simp: st Cons.IH split: prod.split)
qed simp

theorem Run_panics_on_34th_failure_witness:
  "\<exists>st' waits. Run ref_lib rejecting_SetSnapshot () Second (replicate 40 sample_pass) (New, [], reconciler_New 0 None)
       = (st', waits, Panicked)"
proof -
  let ?ps = "replicate 40 sample_pass" and ?st = "(New, [], reconciler_New 0 None)"
  obtain st' waits out where run: "Run ref_lib rejecting_SetSnapshot () Second ?ps ?st = (st', waits, out)"
    by (metis prod.exhaust)
  have "\<forall>j < 34. pass_failures ref_lib rejecting_SetSnapshot () ?ps ?st ! (0 + j)" unfolding rejecting_fails by simp
  then have "out = Panicked"
    using Run_panics_on_34th_failure [OF run, of 0] by (simp add: sample_pass_def)
  with run show ?thesis by blast
qed

end
