(* ===== verification/Mesh_Tracker.thy ===== *)
theory Mesh_Tracker
  imports Mesh_Metrics
begin

text \<open>
  The connection tracker, \<open>internal/xds/tracker.go\<close>: the open xDS streams, kept by the
  callbacks of the xDS server, and the connection gauge that the control plane drives from
  them.

  A callback changes the map under the mutex and calls the gauge hook after releasing it, so
  the callbacks of different streams interleave between the two; the step relation
  \<open>tracker_step\<close> has one step for each half.
\<close>

section \<open>Data\<close>

record ConnectedEnvoy =
  StreamID :: int
  envoyNodeID :: string
  ConnectedAt :: time

record 'g ConnectionTracker =
  streams :: "(int, ConnectedEnvoy) gomap"
  onOpen :: "('g \<Rightarrow> 'g) option"
  onClose :: "('g \<Rightarrow> 'g) option"

section \<open>Operations\<close>

definition NewConnectionTracker :: "('g \<Rightarrow> 'g) option \<Rightarrow> ('g \<Rightarrow> 'g) option \<Rightarrow> 'g ConnectionTracker" where
  "NewConnectionTracker opened closed = \<lparr>streams = [], onOpen = opened, onClose = closed\<rparr>"

text \<open>The part of each callback that runs under the lock.\<close>

definition open_locked :: "time \<Rightarrow> int \<Rightarrow> 'g ConnectionTracker \<Rightarrow> 'g ConnectionTracker" where
  "open_locked now streamID t =
     t\<lparr>streams := go_set streamID \<lparr>StreamID = streamID, envoyNodeID = [], ConnectedAt = now\<rparr> (streams t)\<rparr>"

definition close_locked :: "int \<Rightarrow> 'g ConnectionTracker \<Rightarrow> 'g ConnectionTracker" where
  "close_locked streamID t = t\<lparr>streams := go_delete streamID (streams t)\<rparr>"

definition StreamRequestFunc :: "int \<Rightarrow> string \<Rightarrow> 'g ConnectionTracker \<Rightarrow> 'g ConnectionTracker" where
  "StreamRequestFunc streamID nodeId t =
     (case go_get (streams t) streamID of
        Some entry \<Rightarrow>
          if nodeId \<noteq> [] then t\<lparr>streams := go_set streamID (entry\<lparr>envoyNodeID := nodeId\<rparr>) (streams t)\<rparr> else t
      | None \<Rightarrow> t)"

text \<open>The hook that follows, on the state \<open>g\<close> it acts on, if there is one.\<close>

definition run_hook :: "('g \<Rightarrow> 'g) option \<Rightarrow> 'g \<Rightarrow> 'g" where
  "run_hook h g = (case h of None \<Rightarrow> g | Some f \<Rightarrow> f g)"

definition StreamOpenFunc :: "time \<Rightarrow> int \<Rightarrow> 'g ConnectionTracker \<times> 'g \<Rightarrow> 'g ConnectionTracker \<times> 'g" where
  "StreamOpenFunc now streamID = (\<lambda>(t, g).
     let t = open_locked now streamID t in (t, run_hook (onOpen t) g))"

definition StreamClosedFunc :: "int \<Rightarrow> 'g ConnectionTracker \<times> 'g \<Rightarrow> 'g ConnectionTracker \<times> 'g" where
  "StreamClosedFunc streamID = (\<lambda>(t, g).
     let t = close_locked streamID t in (t, run_hook (onClose t) g))"

fun Connected_loop :: "(int \<times> ConnectedEnvoy) list \<Rightarrow> ConnectedEnvoy list \<Rightarrow> ConnectedEnvoy list" where
  "Connected_loop [] out = out"
| "Connected_loop ((_, c) # rest) out = Connected_loop rest (out @ [c])"

definition Connected :: "'g ConnectionTracker \<Rightarrow> ConnectedEnvoy list" where
  "Connected t = Connected_loop (streams t) []"

definition Count :: "'g ConnectionTracker \<Rightarrow> int" where
  "Count t = int (length (streams t))"

section \<open>The callbacks as steps\<close>

datatype stream_event = EvOpen time int | EvClose int | EvRequest int string

primrec stream_step :: "stream_event \<Rightarrow> 'g ConnectionTracker \<times> 'g \<Rightarrow> 'g ConnectionTracker \<times> 'g" where
  "stream_step (EvOpen now sid) tg = StreamOpenFunc now sid tg"
| "stream_step (EvClose sid) tg = StreamClosedFunc sid tg"
| "stream_step (EvRequest sid nid) tg = (StreamRequestFunc sid nid (fst tg), snd tg)"

text \<open>What the events of one stream leave of it, seen from that stream alone.\<close>

fun one_stream :: "int \<Rightarrow> stream_event \<Rightarrow> ConnectedEnvoy option \<Rightarrow> ConnectedEnvoy option" where
  "one_stream sid (EvOpen now s) c =
     (if s = sid then Some \<lparr>StreamID = sid, envoyNodeID = [], ConnectedAt = now\<rparr> else c)"
| "one_stream sid (EvClose s) c = (if s = sid then None else c)"
| "one_stream sid (EvRequest s nid) c =
     (if s = sid \<and> nid \<noteq> [] then map_option (\<lambda>e. e\<lparr>envoyNodeID := nid\<rparr>) c else c)"

text \<open>
  The tracker of the control plane with its callbacks cut at the release of the lock:
  \<open>toOpen\<close> and \<open>toClose\<close> count the hooks still to run. A stream ID is never opened twice
  and is closed after it was opened, as the xDS server assigns the IDs.
\<close>

record tracker_state =
  tracker :: "metrics ConnectionTracker"
  gauge :: metrics
  toOpen :: nat
  toClose :: nat
  used :: "int list"

definition control_plane_tracker :: "metrics ConnectionTracker" where
  "control_plane_tracker =
     NewConnectionTracker (Some (\<lambda>tr. tr @ [EnvoyConnectionsTotal_Inc]))
       (Some (\<lambda>tr. tr @ [EnvoyConnectionsTotal_Dec]))"

definition tracker_init :: tracker_state where
  "tracker_init = \<lparr>tracker = control_plane_tracker, gauge = [], toOpen = 0, toClose = 0, used = []\<rparr>"

inductive tracker_step :: "tracker_state \<Rightarrow> tracker_state \<Rightarrow> bool" where
  ts_open: "sid \<notin> set (used s) \<Longrightarrow>
    tracker_step s (s\<lparr>tracker := open_locked now sid (tracker s), toOpen := Suc (toOpen s), used := sid # used s\<rparr>)"
| ts_opened: "0 < toOpen s \<Longrightarrow>
    tracker_step s (s\<lparr>gauge := run_hook (onOpen (tracker s)) (gauge s), toOpen := toOpen s - 1\<rparr>)"
| ts_close: "go_get (streams (tracker s)) sid \<noteq> None \<Longrightarrow>
    tracker_step s (s\<lparr>tracker := close_locked sid (tracker s), toClose := Suc (toClose s)\<rparr>)"
| ts_closed: "0 < toClose s \<Longrightarrow>
    tracker_step s (s\<lparr>gauge := run_hook (onClose (tracker s)) (gauge s), toClose := toClose s - 1\<rparr>)"
| ts_request: "tracker_step s (s\<lparr>tracker := StreamRequestFunc sid nid (tracker s)\<rparr>)"

inductive_cases tracker_stepE: "tracker_step s s'"

inductive tracker_reachable :: "tracker_state \<Rightarrow> bool" where
  tr_init: "tracker_reachable tracker_init"
| tr_step: "tracker_reachable s \<Longrightarrow> tracker_step s s' \<Longrightarrow> tracker_reachable s'"

section \<open>Lemmas\<close>

lemma Connected_loop_eq: "Connected_loop es out = out @ map snd es"
  by (induction es out rule: Connected_loop.induct) auto

lemma hooks_kept [simp]:
  "onOpen (open_locked now sid t) = onOpen t" "onClose (open_locked now sid t) = onClose t"
  "onOpen (close_locked sid t) = onOpen t" "onClose (close_locked sid t) = onClose t"
  "onOpen (StreamRequestFunc sid nid t) = onOpen t" "onClose (StreamRequestFunc sid nid t) = onClose t"
  by (simp_all add: open_locked_def close_locked_def StreamRequestFunc_def split: option.split)

lemma go_get_stream_step:
  "go_get (streams (fst (stream_step ev tg))) sid = one_stream sid ev (go_get (streams (fst tg)) sid)"
  by (cases ev; cases tg)
    (auto simp: StreamOpenFunc_def StreamClosedFunc_def StreamRequestFunc_def open_locked_def
      close_locked_def Let_def split: option.splits)

lemma go_ok_stream_step:
  "go_ok (streams (fst tg)) \<Longrightarrow> go_ok (streams (fst (stream_step ev tg)))"
  by (cases ev; cases tg)
    (auto simp: StreamOpenFunc_def StreamClosedFunc_def StreamRequestFunc_def open_locked_def
      close_locked_def Let_def split: option.splits)

lemma length_go_set: "length (go_set k v m) = (if go_get m k = None then Suc (length m) else length m)"
  by (induction m) (auto simp: go_set_def)

lemma length_go_delete: "go_ok m \<Longrightarrow> go_get m k \<noteq> None \<Longrightarrow> Suc (length (go_delete k m)) = length m"
proof (induction m)
  case (Cons p m)
  obtain a v where p: "p = (a, v)" by (cases p)
  show ?case
  proof (cases "k = a")
    case True
    with Cons.prems p have "go_get m k = None" by (simp add: go_get_None_iff)
    then have "go_delete k m = m"
      by (force simp: go_delete_def go_get_None_iff AList.delete_eq intro!: filter_True)
    with p True show ?thesis by (simp add: go_delete_def)
  qed (use Cons p in \<open>simp add: go_delete_def\<close>)
qed simp

definition tracker_inv :: "tracker_state \<Rightarrow> bool" where
  "tracker_inv s \<longleftrightarrow> go_ok (streams (tracker s)) \<and> fst ` set (streams (tracker s)) \<subseteq> set (used s)
     \<and> onOpen (tracker s) = onOpen control_plane_tracker \<and> onClose (tracker s) = onClose control_plane_tracker
     \<and> connections_gauge (gauge s) + int (toOpen s) - int (toClose s) = Count (tracker s)"

lemma tracker_inv_init: "tracker_inv tracker_init"
  by (simp add: tracker_inv_def tracker_init_def control_plane_tracker_def NewConnectionTracker_def
      connections_gauge_def Count_def)

lemma connections_gauge_hooks [simp]:
  "connections_gauge (run_hook (onOpen control_plane_tracker) tr) = connections_gauge tr + 1"
  "connections_gauge (run_hook (onClose control_plane_tracker) tr) = connections_gauge tr - 1"
  by (simp_all add: control_plane_tracker_def NewConnectionTracker_def run_hook_def
      connections_gauge_append) (simp_all add: connections_gauge_def)

lemma streams_request:
  "streams (StreamRequestFunc sid nid t) =
     (case go_get (streams t) sid of
        Some e \<Rightarrow> if nid \<noteq> [] then go_set sid (e\<lparr>envoyNodeID := nid\<rparr>) (streams t) else streams t
      | None \<Rightarrow> streams t)"
  by (simp add: StreamRequestFunc_def split: option.split)

lemma go_get_mem_key: "go_get m k = Some v \<Longrightarrow> k \<in> fst ` set m"
  by (force dest: go_get_mem)

lemma tracker_inv_step:
  assumes "tracker_step s s'" and "tracker_inv s"
  shows "tracker_inv s'"
  using assms
proof cases
  case (ts_open sid now)
  then have "go_get (streams (tracker s)) sid = None"
    using assms(2) by (auto simp: tracker_inv_def go_get_None_iff)
  with ts_open assms(2) show ?thesis
    by (auto simp: tracker_inv_def open_locked_def set_go_set Count_def length_go_set)
next
  case (ts_close sid)
  with assms(2) have "Suc (length (go_delete sid (streams (tracker s)))) = length (streams (tracker s))"
    by (intro length_go_delete) (simp_all add: tracker_inv_def)
  with ts_close assms(2) show ?thesis
    by (auto simp: tracker_inv_def close_locked_def set_go_delete Count_def)
next
  case (ts_request sid nid)
  with assms(2) show ?thesis
    by (auto simp: tracker_inv_def streams_request set_go_set Count_def length_go_set
        split: option.splits dest: go_get_mem_key)
qed (auto simp: tracker_inv_def)

lemma tracker_inv_reachable: "tracker_reachable s \<Longrightarrow> tracker_inv s"
  by (induction rule: tracker_reachable.induct) (auto intro: tracker_inv_init tracker_inv_step)

lemma stream_history:
  "go_get (streams (fst (fold stream_step evs tg))) sid
     = fold (one_stream sid) evs (go_get (streams (fst tg)) sid)
   \<and> (go_ok (streams (fst tg)) \<longrightarrow> go_ok (streams (fst (fold stream_step evs tg))))"
  by (induction evs arbitrary: tg) (simp_all add: go_get_stream_step go_ok_stream_step)

section \<open>Properties\<close>

text \<open>C22. The connection gauge is right however the callbacks interleave: in every reachable state
  its level, with the hooks that still have to run, is the number of open streams, so it
  equals \<open>Count\<close> whenever no callback is between its lock and its hook.\<close>

theorem connection_gauge_counts_streams:
  assumes "tracker_reachable s"
  shows "connections_gauge (gauge s) + int (toOpen s) - int (toClose s) = Count (tracker s)
    \<and> Count (tracker s) = int (length (Connected (tracker s)))"
  using tracker_inv_reachable [OF assms]
  by (simp add: tracker_inv_def Connected_def Connected_loop_eq Count_def)

theorem connection_gauge_counts_streams_witness:
  "\<exists>s. tracker_reachable s \<and> toOpen s = 1 \<and> toClose s = 1 \<and> Count (tracker s) = 1
     \<and> connections_gauge (gauge s) = 1"
proof -
  let ?s1 = "tracker_init\<lparr>tracker := open_locked 5 1 (tracker tracker_init), toOpen := 1, used := [1]\<rparr>"
  let ?s2 = "?s1\<lparr>gauge := run_hook (onOpen (tracker ?s1)) (gauge ?s1), toOpen := 0\<rparr>"
  let ?s3 = "?s2\<lparr>tracker := open_locked 6 2 (tracker ?s2), toOpen := 1, used := [2, 1]\<rparr>"
  let ?s4 = "?s3\<lparr>tracker := close_locked 1 (tracker ?s3), toClose := 1\<rparr>"
  have "tracker_step tracker_init ?s1"
    using ts_open [of 1 tracker_init 5] by (simp add: tracker_init_def)
  moreover have "tracker_step ?s1 ?s2" using ts_opened [of ?s1] by simp
  moreover have "tracker_step ?s2 ?s3" using ts_open [of 2 ?s2 6] by (simp add: tracker_init_def)
  moreover have "tracker_step ?s3 ?s4" using ts_close [of ?s3 1]
    by (simp add: tracker_init_def open_locked_def)
  ultimately have r: "tracker_reachable ?s4" by (meson tr_init tr_step)
  have "Count (tracker ?s4) = 1"
    by (simp add: Count_def tracker_init_def control_plane_tracker_def NewConnectionTracker_def
        open_locked_def close_locked_def go_set_def go_delete_def)
  with connection_gauge_counts_streams [OF r] r show ?thesis by (intro exI [of _ ?s4]) simp
qed

text \<open>C38. The tracker after any sequence of callbacks: the entry of a stream is what the events of that
  stream alone leave, the time of its last opening with the last non-empty node ID since then
  and nothing after its closing; the events of other streams do not matter, \<open>Connected\<close>
  lists exactly these entries, once each, and \<open>Count\<close> is their number.\<close>

theorem tracker_entries:
  fixes evs closed g and opened :: "('g \<Rightarrow> 'g) option"
  defines "t \<equiv> fst (fold stream_step evs (NewConnectionTracker opened closed, g))"
  shows "set (Connected t) = {c. \<exists>sid. fold (one_stream sid) evs None = Some c}
    \<and> length (Connected t) = card {sid. fold (one_stream sid) evs None \<noteq> None}
    \<and> Count t = int (length (Connected t))"
proof -
  have get: "go_get (streams t) sid = fold (one_stream sid) evs None" for sid
    using stream_history [of evs "(NewConnectionTracker opened closed, g)" sid]
    by (simp add: t_def NewConnectionTracker_def)
  have ok: "go_ok (streams t)"
    using stream_history [of evs "(NewConnectionTracker opened closed, g)"]
    by (simp add: t_def NewConnectionTracker_def)
  have "set (Connected t) = {c. \<exists>sid. go_get (streams t) sid = Some c}"
    using go_get_iff [OF ok] by (force simp: Connected_def Connected_loop_eq)
  moreover have "{sid. go_get (streams t) sid \<noteq> None} = set (map fst (streams t))"
    by (auto simp: go_get_None_iff)
  moreover have "card (set (map fst (streams t))) = length (streams t)"
    using ok distinct_card [of "map fst (streams t)"] by (simp add: go_ok_def)
  ultimately show ?thesis by (simp add: get Connected_def Connected_loop_eq Count_def)
qed

end
