(* ===== verification/Mesh_Config.thy ===== *)
theory Mesh_Config
  imports Mesh_Prelude
begin

text \<open>
  Configuration, \<open>internal/config/config.go\<close>: the defaults, loading from the environment,
  validation. \<open>strconv.Atoi\<close> and \<open>time.ParseDuration\<close> are modelled as the standard
  library defines them; the one floating-point product of \<open>ParseDuration\<close>, the value of the
  digits after a decimal point, is the parameter \<open>frac\<close>.
\<close>

section \<open>Data\<close>

record Config =
  HTTPAddr :: string
  XDSAddr :: string
  ReconcileInterval :: duration
  StaleAfter :: duration
  ShutdownTimeout :: duration
  ReadTimeout :: duration
  WriteTimeout :: duration
  IdleTimeout :: duration
  LogLevel :: string

datatype config_error =
    ErrParse string
  | ErrHTTPAddrEmpty
  | ErrHTTPAddrPort string
  | ErrXDSAddrEmpty
  | ErrXDSAddrPort string
  | ErrReconcileInterval duration
  | ErrStaleAfter duration
  | ErrShutdownTimeout duration
  | ErrReadTimeout duration
  | ErrWriteTimeout duration
  | ErrIdleTimeout duration
  | ErrLogLevel string

section \<open>The standard library's parsers\<close>

definition is_digit :: "char \<Rightarrow> bool" where
  "is_digit c \<longleftrightarrow> CHR ''0'' \<le> c \<and> c \<le> CHR ''9''"

text \<open>\<open>strconv.Atoi\<close>: an optional sign and at least one digit, within 64 bits.\<close>

definition Atoi :: "string \<Rightarrow> int option" where
  "Atoi s =
     (let (neg, ds) =
            (case s of
               c # rest \<Rightarrow> if c = CHR ''-'' then (True, rest) else if c = CHR ''+'' then (False, rest) else (False, s)
             | [] \<Rightarrow> (False, s));
          n = (if neg then - int (read_nat ds) else int (read_nat ds))
      in if ds \<noteq> [] \<and> list_all is_digit ds \<and> - (2 ^ 63) \<le> n \<and> n < 2 ^ 63 then Some n else None)"

text \<open>\<open>time.ParseDuration\<close>: a possibly signed sequence of decimal numbers, each with a unit.\<close>

definition unitMap :: "string \<Rightarrow> nat option" where
  "unitMap u = map_of
     [(''ns'', 1), (''us'', 1000), ([CHR 0xC2, CHR 0xB5] @ ''s'', 1000), ([CHR 0xCE, CHR 0xBC] @ ''s'', 1000),
      (''ms'', 1000000), (''s'', 1000000000), (''m'', 60000000000), (''h'', 3600000000000)] u"

fun leadingInt :: "nat \<Rightarrow> string \<Rightarrow> (nat \<times> string) option" where
  "leadingInt x [] = Some (x, [])"
| "leadingInt x (c # s) =
     (if \<not> is_digit c then Some (x, c # s)
      else if x > 2 ^ 63 div 10 then None
      else let x = x * 10 + digit_val c in if x > 2 ^ 63 then None else leadingInt x s)"

definition take_unit :: "string \<Rightarrow> string \<times> string" where
  "take_unit s = (let u = takeWhile (\<lambda>c. \<not> (c = CHR ''.'' \<or> is_digit c)) s in (u, drop (length u) s))"

text \<open>One number with its unit, as nanoseconds. \<open>frac ds unit\<close> is the part of the unit that the
  digits \<open>ds\<close> after the decimal point stand for.\<close>

definition parse_item :: "(string \<Rightarrow> nat \<Rightarrow> nat) \<Rightarrow> string \<Rightarrow> (nat \<times> string) option" where
  "parse_item frac s =
     (if s = [] \<or> \<not> (hd s = CHR ''.'' \<or> is_digit (hd s)) then None
      else case leadingInt 0 s of
        None \<Rightarrow> None
      | Some (v, s1) \<Rightarrow>
          let pre = (length s1 \<noteq> length s);
              ds = (if s1 \<noteq> [] \<and> hd s1 = CHR ''.'' then takeWhile is_digit (tl s1) else []);
              s2 = (if s1 \<noteq> [] \<and> hd s1 = CHR ''.'' then dropWhile is_digit (tl s1) else s1);
              post = (ds \<noteq> []);
              (u, s3) = take_unit s2
          in if \<not> pre \<and> \<not> post then None
             else if u = [] then None
             else case unitMap u of
               None \<Rightarrow> None
             | Some unit \<Rightarrow>
                 if v > 2 ^ 63 div unit then None
                 else let v = v * unit + (if list_ex (\<lambda>c. c \<noteq> CHR ''0'') ds then frac ds unit else 0)
                      in if v > 2 ^ 63 then None else Some (v, s3))"

lemma leadingInt_length: "leadingInt x s = Some (v, s') \<Longrightarrow> length s' \<le> length s"
  by (induction x s rule: leadingInt.induct) (auto simp: Let_def split: if_splits)

lemma take_unit_shorter: "take_unit s = (u, s') \<Longrightarrow> u \<noteq> [] \<Longrightarrow> length s' < length s"
proof -
  assume "take_unit s = (u, s')" and "u \<noteq> []"
  then have "s = u @ s'" and "u \<noteq> []"
    by (auto simp: take_unit_def Let_def dropWhile_eq_drop [symmetric])
  then show "length s' < length s" by simp
qed

lemma parse_item_shorter: "parse_item frac s = Some (v, s') \<Longrightarrow> length s' < length s"
proof -
  assume "parse_item frac s = Some (v, s')"
  then obtain w s1 s2 u where "leadingInt 0 s = Some (w, s1)"
    "s2 = (if s1 \<noteq> [] \<and> hd s1 = CHR ''.'' then dropWhile is_digit (tl s1) else s1)"
    "take_unit s2 = (u, s')" "u \<noteq> []"
    by (auto simp: parse_item_def Let_def split: if_splits option.splits prod.splits)
  moreover from this have "length s2 \<le> length s1"
    using length_dropWhile_le [of is_digit "tl s1"] by (cases s1) (auto split: if_splits)
  ultimately show ?thesis
    using leadingInt_length [of 0 s w s1] take_unit_shorter [of s2 u s'] by simp
qed

text \<open>The sum is kept in 64 bits: two items of \<open>2\<^sup>6\<^sup>3\<close> nanoseconds add up to zero.\<close>

function parse_items :: "(string \<Rightarrow> nat \<Rightarrow> nat) \<Rightarrow> nat \<Rightarrow> string \<Rightarrow> nat option" where
  "parse_items frac d s =
     (if s = [] then Some d
      else case parse_item frac s of
        None \<Rightarrow> None
      | Some (v, rest) \<Rightarrow>
          if (d + v) mod 2 ^ 64 > 2 ^ 63 then None else parse_items frac ((d + v) mod 2 ^ 64) rest)"
  by auto
termination
  by (relation "measure (\<lambda>(frac, d, s). length s)") (auto dest: parse_item_shorter)

declare parse_items.simps [simp del]

definition ParseDuration :: "(string \<Rightarrow> nat \<Rightarrow> nat) \<Rightarrow> string \<Rightarrow> duration option" where
  "ParseDuration frac str =
     (let (neg, s) =
            (case str of
               c # rest \<Rightarrow> if c = CHR ''-'' then (True, rest) else if c = CHR ''+'' then (False, rest) else (False, str)
             | [] \<Rightarrow> (False, str))
      in if s = ''0'' then Some 0
         else if s = [] then None
         else case parse_items frac 0 s of
           None \<Rightarrow> None
         | Some d \<Rightarrow>
             if neg then Some (- int d)
             else if d > 2 ^ 63 - 1 then None else Some (int d))"

section \<open>Operations\<close>

definition Default :: Config where
  "Default =
     \<lparr>HTTPAddr = '':8080'', XDSAddr = '':18000'', ReconcileInterval = 2 * Second, StaleAfter = 15 * Second,
      ShutdownTimeout = 10 * Second, ReadTimeout = 5 * Second, WriteTimeout = 10 * Second,
      IdleTimeout = 60 * Second, LogLevel = ''info''\<rparr>"

text \<open>The backwards loop of \<open>portOf\<close>: \<open>i\<close> characters are still to be looked at.\<close>

fun portOf_loop :: "string \<Rightarrow> nat \<Rightarrow> string" where
  "portOf_loop addr 0 = addr"
| "portOf_loop addr (Suc i) = (if addr ! i = CHR '':'' then drop (Suc i) addr else portOf_loop addr i)"

definition portOf :: "string \<Rightarrow> string" where
  "portOf addr = portOf_loop addr (length addr)"

definition config_Validate :: "Config \<Rightarrow> config_error option" where
  "config_Validate c =
     (if HTTPAddr c = [] then Some ErrHTTPAddrEmpty
      else if Atoi (portOf (HTTPAddr c)) = None then Some (ErrHTTPAddrPort (HTTPAddr c))
      else if XDSAddr c = [] then Some ErrXDSAddrEmpty
      else if Atoi (portOf (XDSAddr c)) = None then Some (ErrXDSAddrPort (XDSAddr c))
      else if ReconcileInterval c \<le> 0 then Some (ErrReconcileInterval (ReconcileInterval c))
      else if StaleAfter c \<le> 0 then Some (ErrStaleAfter (StaleAfter c))
      else if ShutdownTimeout c \<le> 0 then Some (ErrShutdownTimeout (ShutdownTimeout c))
      else if ReadTimeout c \<le> 0 then Some (ErrReadTimeout (ReadTimeout c))
      else if WriteTimeout c \<le> 0 then Some (ErrWriteTimeout (WriteTimeout c))
      else if IdleTimeout c \<le> 0 then Some (ErrIdleTimeout (IdleTimeout c))
      else if LogLevel c \<notin> {''debug'', ''info'', ''warn'', ''error''} then Some (ErrLogLevel (LogLevel c))
      else None)"

text \<open>One duration variable: unset keeps the configuration, an unparsable value ends the load.\<close>

definition load_duration ::
    "(string \<Rightarrow> nat \<Rightarrow> nat) \<Rightarrow> (string \<Rightarrow> string) \<Rightarrow> string \<Rightarrow> (duration \<Rightarrow> Config \<Rightarrow> Config)
      \<Rightarrow> config_error + Config \<Rightarrow> config_error + Config" where
  "load_duration frac getenv name upd res =
     (case res of
        Inl err \<Rightarrow> Inl err
      | Inr cfg \<Rightarrow>
          if getenv name \<noteq> []
          then case ParseDuration frac (getenv name) of
                 None \<Rightarrow> Inl (ErrParse name)
               | Some d \<Rightarrow> Inr (upd d cfg)
          else Inr cfg)"

definition Load :: "(string \<Rightarrow> nat \<Rightarrow> nat) \<Rightarrow> (string \<Rightarrow> string) \<Rightarrow> config_error + Config" where
  "Load frac getenv =
     (let cfg = Default;
          cfg = (if getenv ''CP_HTTP_ADDR'' \<noteq> [] then cfg\<lparr>HTTPAddr := getenv ''CP_HTTP_ADDR''\<rparr> else cfg);
          cfg = (if getenv ''CP_LOG_LEVEL'' \<noteq> [] then cfg\<lparr>LogLevel := getenv ''CP_LOG_LEVEL''\<rparr> else cfg);
          cfg = (if getenv ''CP_XDS_ADDR'' \<noteq> [] then cfg\<lparr>XDSAddr := getenv ''CP_XDS_ADDR''\<rparr> else cfg);
          res = Inr cfg;
          res = load_duration frac getenv ''CP_RECONCILE_INTERVAL'' (\<lambda>d. ReconcileInterval_update (\<lambda>_. d)) res;
          res = load_duration frac getenv ''CP_STALE_AFTER'' (\<lambda>d. StaleAfter_update (\<lambda>_. d)) res;
          res = load_duration frac getenv ''CP_SHUTDOWN_TIMEOUT'' (\<lambda>d. ShutdownTimeout_update (\<lambda>_. d)) res;
          res = load_duration frac getenv ''CP_READ_TIMEOUT'' (\<lambda>d. ReadTimeout_update (\<lambda>_. d)) res;
          res = load_duration frac getenv ''CP_WRITE_TIMEOUT'' (\<lambda>d. WriteTimeout_update (\<lambda>_. d)) res;
          res = load_duration frac getenv ''CP_IDLE_TIMEOUT'' (\<lambda>d. IdleTimeout_update (\<lambda>_. d)) res
      in case res of
           Inl err \<Rightarrow> Inl err
         | Inr cfg \<Rightarrow> (case config_Validate cfg of Some err \<Rightarrow> Inl err | None \<Rightarrow> Inr cfg))"

section \<open>Lemmas\<close>

lemma portOf_loop_eq:
  "i \<le> length addr \<Longrightarrow> portOf_loop addr i =
     (if CHR '':'' \<in> set (take i addr)
      then rev (takeWhile (\<lambda>c. c \<noteq> CHR '':'') (rev (take i addr))) @ drop i addr else addr)"
proof (induction addr i rule: portOf_loop.induct)
  case (2 addr i)
  then have "take (Suc i) addr = take i addr @ [addr ! i]" "drop i addr = addr ! i # drop (Suc i) addr"
    by (simp_all add: take_Suc_conv_app_nth Cons_nth_drop_Suc)
  with 2 show ?case by auto
qed simp

lemma portOf_split: "CHR '':'' \<notin> set p \<Longrightarrow> portOf (h @ '':'' @ p) = p"
  unfolding portOf_def portOf_loop_eq [OF order_refl] by (auto simp: takeWhile_append)

lemma is_digit_digit_char: "d < 10 \<Longrightarrow> is_digit (digit_char d)"
proof -
  assume "d < 10"
  then have "d \<in> {0, 1, 2, 3, 4, 5, 6, 7, 8, 9}" by auto
  then show ?thesis unfolding is_digit_def digit_char_def by (elim insertE; simp; code_simp)
qed

lemma show_nat_digits: "list_all is_digit (show_nat n) \<and> show_nat n \<noteq> []"
proof (induction n rule: show_nat.induct)
  case (1 n)
  then show ?case by (cases "n < 10") (simp_all add: show_nat.simps [of n] is_digit_digit_char)
qed

lemma foldl_digits_ge: "x \<le> foldl (\<lambda>n c. 10 * n + digit_val c) x ds"
proof (induction ds arbitrary: x)
  case (Cons c ds)
  have "x \<le> 10 * x + digit_val c" by simp
  also have "\<dots> \<le> foldl (\<lambda>n c. 10 * n + digit_val c) (10 * x + digit_val c) ds" by (rule Cons.IH)
  finally show ?case by simp
qed simp

lemma leadingInt_digits:
  "list_all is_digit ds \<Longrightarrow> foldl (\<lambda>n c. 10 * n + digit_val c) x ds \<le> 2 ^ 63 \<Longrightarrow>
   rest = [] \<or> \<not> is_digit (hd rest) \<Longrightarrow>
   leadingInt x (ds @ rest) = Some (foldl (\<lambda>n c. 10 * n + digit_val c) x ds, rest)"
proof (induction ds arbitrary: x)
  case Nil
  then show ?case by (cases rest) auto
next
  case (Cons c ds)
  have le: "10 * x + digit_val c \<le> 2 ^ 63"
    using foldl_digits_ge [of "10 * x + digit_val c" ds] Cons.prems(2) by simp
  then have "x \<le> 2 ^ 63 div 10" by simp
  with Cons le show ?case by (simp add: Let_def mult.commute)
qed

lemma parse_item_seconds:
  assumes "n * 1000000000 \<le> 2 ^ 63"
  shows "parse_item frac (show_nat n @ ''s'') = Some (n * 1000000000, [])"
proof -
  have ds: "list_all is_digit (show_nat n)" "show_nat n \<noteq> []" using show_nat_digits by auto
  have val: "foldl (\<lambda>n c. 10 * n + digit_val c) 0 (show_nat n) = n"
    using read_show_nat [of n] by (simp add: read_nat_def)
  have hd: "is_digit (hd (show_nat n @ ''s''))" using ds by (cases "show_nat n") auto
  have s: "\<not> is_digit CHR ''s''" by code_simp
  have "leadingInt 0 (show_nat n @ ''s'') = Some (n, ''s'')"
    using leadingInt_digits [OF ds(1), of 0 "''s''"] assms s by (simp add: val)
  moreover have "take_unit ''s'' = (''s'', [])" using s by (simp add: take_unit_def)
  moreover have "unitMap ''s'' = Some 1000000000" by (simp add: unitMap_def)
  ultimately show ?thesis
    using hd ds(2) assms by (simp add: parse_item_def Let_def)
qed

text \<open>The durations that can be configured: variable and field.\<close>

definition duration_vars :: "(string \<times> (Config \<Rightarrow> duration)) list" where
  "duration_vars =
     [(''CP_RECONCILE_INTERVAL'', ReconcileInterval), (''CP_STALE_AFTER'', StaleAfter),
      (''CP_SHUTDOWN_TIMEOUT'', ShutdownTimeout), (''CP_READ_TIMEOUT'', ReadTimeout),
      (''CP_WRITE_TIMEOUT'', WriteTimeout), (''CP_IDLE_TIMEOUT'', IdleTimeout)]"

text \<open>What the environment says about a string and about a duration.\<close>

definition env_string :: "(string \<Rightarrow> string) \<Rightarrow> string \<Rightarrow> string \<Rightarrow> string" where
  "env_string getenv name dflt = (if getenv name = [] then dflt else getenv name)"

definition env_duration ::
    "(string \<Rightarrow> nat \<Rightarrow> nat) \<Rightarrow> (string \<Rightarrow> string) \<Rightarrow> string \<Rightarrow> duration \<Rightarrow> duration option" where
  "env_duration frac getenv name dflt =
     (if getenv name = [] then Some dflt else ParseDuration frac (getenv name))"

definition configured :: "(string \<Rightarrow> nat \<Rightarrow> nat) \<Rightarrow> (string \<Rightarrow> string) \<Rightarrow> Config \<Rightarrow> bool" where
  "configured frac getenv cfg \<longleftrightarrow>
     HTTPAddr cfg = env_string getenv ''CP_HTTP_ADDR'' '':8080''
     \<and> XDSAddr cfg = env_string getenv ''CP_XDS_ADDR'' '':18000''
     \<and> LogLevel cfg = env_string getenv ''CP_LOG_LEVEL'' ''info''
     \<and> list_all (\<lambda>(name, fld). env_duration frac getenv name (fld Default) = Some (fld cfg)) duration_vars"

definition usable :: "Config \<Rightarrow> bool" where
  "usable cfg \<longleftrightarrow>
     list_all (\<lambda>addr. addr \<noteq> [] \<and> Atoi (portOf addr) \<noteq> None) [HTTPAddr cfg, XDSAddr cfg]
     \<and> list_all (\<lambda>(name, fld). 0 < fld cfg) duration_vars
     \<and> LogLevel cfg \<in> {''debug'', ''info'', ''warn'', ''error''}"

lemma config_Validate_None: "config_Validate c = None \<longleftrightarrow> usable c"
  by (auto simp: config_Validate_def usable_def duration_vars_def split: if_splits)

lemma load_duration_Inl [simp]: "load_duration frac getenv name upd (Inl err) = Inl err"
  by (simp add: load_duration_def)

lemma load_duration_env:
  "upd (fld cfg) cfg = cfg \<Longrightarrow>
   load_duration frac getenv name upd (Inr cfg) =
     (case env_duration frac getenv name (fld cfg) of
        None \<Rightarrow> Inl (ErrParse name) | Some d \<Rightarrow> Inr (upd d cfg))"
  by (simp add: load_duration_def env_duration_def)

lemmas load_durations =
  load_duration_env [where fld = ReconcileInterval] load_duration_env [where fld = StaleAfter]
  load_duration_env [where fld = ShutdownTimeout] load_duration_env [where fld = ReadTimeout]
  load_duration_env [where fld = WriteTimeout] load_duration_env [where fld = IdleTimeout]

definition env_base :: "(string \<Rightarrow> string) \<Rightarrow> Config" where
  "env_base getenv =
     Default\<lparr>HTTPAddr := env_string getenv ''CP_HTTP_ADDR'' '':8080'',
             LogLevel := env_string getenv ''CP_LOG_LEVEL'' ''info'',
             XDSAddr := env_string getenv ''CP_XDS_ADDR'' '':18000''\<rparr>"

text \<open>The load without its final validation, as one chain of lookups.\<close>

definition load_all :: "(string \<Rightarrow> nat \<Rightarrow> nat) \<Rightarrow> (string \<Rightarrow> string) \<Rightarrow> config_error + Config" where
  "load_all frac getenv =
     (let D = (\<lambda>name upd res. load_duration frac getenv name upd res) in
      D ''CP_IDLE_TIMEOUT'' (\<lambda>d. IdleTimeout_update (\<lambda>_. d))
       (D ''CP_WRITE_TIMEOUT'' (\<lambda>d. WriteTimeout_update (\<lambda>_. d))
         (D ''CP_READ_TIMEOUT'' (\<lambda>d. ReadTimeout_update (\<lambda>_. d))
           (D ''CP_SHUTDOWN_TIMEOUT'' (\<lambda>d. ShutdownTimeout_update (\<lambda>_. d))
             (D ''CP_STALE_AFTER'' (\<lambda>d. StaleAfter_update (\<lambda>_. d))
               (D ''CP_RECONCILE_INTERVAL'' (\<lambda>d. ReconcileInterval_update (\<lambda>_. d)) (Inr (env_base getenv))))))))"

lemma Load_eq:
  "Load frac getenv =
     (case load_all frac getenv of
        Inl err \<Rightarrow> Inl err
      | Inr cfg \<Rightarrow> (case config_Validate cfg of Some err \<Rightarrow> Inl err | None \<Rightarrow> Inr cfg))"
proof -
  have base: "env_base getenv =
      (let cfg = Default;
          cfg = (if getenv ''CP_HTTP_ADDR'' \<noteq> [] then cfg\<lparr>HTTPAddr := getenv ''CP_HTTP_ADDR''\<rparr> else cfg);
          cfg = (if getenv ''CP_LOG_LEVEL'' \<noteq> [] then cfg\<lparr>LogLevel := getenv ''CP_LOG_LEVEL''\<rparr> else cfg)
      in if getenv ''CP_XDS_ADDR'' \<noteq> [] then cfg\<lparr>XDSAddr := getenv ''CP_XDS_ADDR''\<rparr> else cfg)"
    by (simp add: env_base_def env_string_def Default_def Let_def)
  show ?thesis unfolding Load_def load_all_def base Let_def ..
qed

text \<open>The checks on a configuration, in order, each with the error that reports its failure.\<close>

definition config_checks :: "Config \<Rightarrow> (bool \<times> config_error) list" where
  "config_checks c =
     concat (map (\<lambda>(addr, empty, port). [(addr \<noteq> [], empty), (Atoi (portOf addr) \<noteq> None, port addr)])
       [(HTTPAddr c, ErrHTTPAddrEmpty, ErrHTTPAddrPort), (XDSAddr c, ErrXDSAddrEmpty, ErrXDSAddrPort)])
     @ map (\<lambda>(d, err). (0 < d, err d))
       [(ReconcileInterval c, ErrReconcileInterval), (StaleAfter c, ErrStaleAfter), (ShutdownTimeout c, ErrShutdownTimeout),
        (ReadTimeout c, ErrReadTimeout), (WriteTimeout c, ErrWriteTimeout), (IdleTimeout c, ErrIdleTimeout)]
     @ [(LogLevel c \<in> {''debug'', ''info'', ''warn'', ''error''}, ErrLogLevel (LogLevel c))]"

lemma config_Validate_first:
  "config_Validate c = map_option snd (find (\<lambda>(ok, err). \<not> ok) (config_checks c))"
  by (simp add: config_Validate_def config_checks_def linorder_not_less)

definition unparsable :: "(string \<Rightarrow> nat \<Rightarrow> nat) \<Rightarrow> (string \<Rightarrow> string) \<Rightarrow> string \<Rightarrow> bool" where
  "unparsable frac getenv name \<longleftrightarrow> getenv name \<noteq> [] \<and> ParseDuration frac (getenv name) = None"

lemma env_duration_None: "env_duration frac getenv name d = None \<longleftrightarrow> unparsable frac getenv name"
  by (simp add: env_duration_def unparsable_def)

lemma load_all_cases:
  "case find (unparsable frac getenv) (map fst duration_vars) of
     Some name \<Rightarrow> load_all frac getenv = Inl (ErrParse name)
   | None \<Rightarrow> \<exists>cfg. load_all frac getenv = Inr cfg \<and> configured frac getenv cfg"
proof -
  note u = env_duration_None [symmetric, of frac getenv "''CP_RECONCILE_INTERVAL''" "2 * Second"]
    env_duration_None [symmetric, of frac getenv "''CP_STALE_AFTER''" "15 * Second"]
    env_duration_None [symmetric, of frac getenv "''CP_SHUTDOWN_TIMEOUT''" "10 * Second"]
    env_duration_None [symmetric, of frac getenv "''CP_READ_TIMEOUT''" "5 * Second"]
    env_duration_None [symmetric, of frac getenv "''CP_WRITE_TIMEOUT''" "10 * Second"]
    env_duration_None [symmetric, of frac getenv "''CP_IDLE_TIMEOUT''" "60 * Second"]
  show ?thesis
    unfolding load_all_def Let_def
    by (simp add: load_durations env_base_def Default_def configured_def duration_vars_def u split: option.split)
qed

section \<open>Properties\<close>

text \<open>C34. Loading, on every path: a configuration is returned only if it has the environment's value, or
  the default, in every field, its addresses end in numbers, its durations are positive and
  its log level is known. Otherwise the error is the first one: that of the first duration
  variable, in the order of the program, whose value does not parse, or, when all of them
  parse, that of the first failing check on the configured values.\<close>

theorem Load_spec:
  "case Load frac getenv of
     Inr cfg \<Rightarrow> configured frac getenv cfg \<and> usable cfg
   | Inl err \<Rightarrow>
       (case find (unparsable frac getenv) (map fst duration_vars) of
          Some name \<Rightarrow> err = ErrParse name
        | None \<Rightarrow> \<exists>cfg. configured frac getenv cfg
            \<and> find (\<lambda>(ok, err). \<not> ok) (config_checks cfg) = Some (False, err))"
proof (cases "find (unparsable frac getenv) (map fst duration_vars)")
  case (Some name)
  then show ?thesis using load_all_cases [of frac getenv] by (simp add: Load_eq)
next
  case None
  then obtain cfg where cfg: "load_all frac getenv = Inr cfg" "configured frac getenv cfg"
    using load_all_cases [of frac getenv] by auto
  show ?thesis
  proof (cases "config_Validate cfg")
    case None
    with cfg show ?thesis by (simp add: Load_eq config_Validate_None [symmetric])
  next
    case (Some err)
    then obtain ok where "find (\<lambda>(ok, err). \<not> ok) (config_checks cfg) = Some (ok, err)"
      by (auto simp: config_Validate_first)
    moreover from this have "\<not> ok" by (auto simp: find_Some_iff)
    ultimately show ?thesis using cfg None Some by (auto simp: Load_eq)
  qed
qed

text \<open>Durations in whole seconds are read back exactly, up to the 63-bit range.\<close>

lemma ParseDuration_seconds:
  assumes "int n * Second < 2 ^ 63"
  shows "ParseDuration frac (show_nat n @ ''s'') = Some (int n * Second)"
proof -
  have n: "n * 1000000000 < 2 ^ 63" using assms by (simp add: Second_def)
  have "is_digit (hd (show_nat n))" "show_nat n \<noteq> []"
    using show_nat_digits [of n] by (cases "show_nat n"; simp)+
  moreover have "\<not> is_digit CHR ''-''" "\<not> is_digit CHR ''+''" by code_simp+
  ultimately obtain c cs where c: "show_nat n @ ''s'' = c # cs" "c \<noteq> CHR ''-''" "c \<noteq> CHR ''+''" "cs \<noteq> []"
    by (cases "show_nat n") auto
  have "parse_items frac 0 (show_nat n @ ''s'') = Some (n * 1000000000)"
    using n by (subst parse_items.simps) (simp add: parse_item_seconds parse_items.simps [of _ _ "[]"])
  with c n show ?thesis by (simp add: ParseDuration_def Second_def)
qed

lemma ParseDuration_seconds_sample: "ParseDuration (\<lambda>_ _. 0) (show_nat 15 @ ''s'') = Some (15 * Second)"
  using ParseDuration_seconds [of 15 "\<lambda>_ _. 0"] by (simp add: Second_def)

text \<open>The validation of addresses is weaker than its message: no colon is needed, and the number
  may be negative or too large for a port.\<close>

lemma config_accepts_bad_ports:
  "config_Validate (Default\<lparr>HTTPAddr := ''8080'', XDSAddr := '':99999''\<rparr>) = None
   \<and> config_Validate (Default\<lparr>HTTPAddr := '':-1''\<rparr>) = None"
  by (simp add: config_Validate_def Default_def portOf_def Atoi_def read_nat_def digit_val_def
      is_digit_def less_eq_char_def Second_def)

end
