(* ===== verification/Mesh_Logging.thy ===== *)
theory Mesh_Logging
  imports Mesh_Config
begin

text \<open>
  Logging, \<open>internal/logging/logging.go\<close>: the choice of the level and the correlation ID that
  a request carries in its context. What is logged has no effect on the program; a logger is
  its level and the attributes attached to it.
\<close>

datatype Level = LevelDebug | LevelInfo | LevelWarn | LevelError

record Logger =
  lgLevel :: Level
  lgAttrs :: "(string \<times> string) list"

text \<open>A context is the chain of values attached to it, the innermost first.\<close>

type_synonym Context = "(string \<times> string) list"

definition correlationIDKey :: string where "correlationIDKey = ''correlation_id''"

definition logging_New :: "string \<Rightarrow> Logger" where
  "logging_New level =
     \<lparr>lgLevel =
        (if level = ''debug'' then LevelDebug else if level = ''warn'' then LevelWarn
         else if level = ''error'' then LevelError else LevelInfo),
      lgAttrs = []\<rparr>"

definition WithCorrelationID :: "Context \<Rightarrow> string \<Rightarrow> Context" where
  "WithCorrelationID ctx corr = (correlationIDKey, corr) # ctx"

definition CorrelationID :: "Context \<Rightarrow> string" where
  "CorrelationID ctx = (case map_of ctx correlationIDKey of None \<Rightarrow> [] | Some v \<Rightarrow> v)"

definition FromContext :: "Context \<Rightarrow> Logger \<Rightarrow> Logger" where
  "FromContext ctx base =
     (let corr = CorrelationID ctx in
      if corr \<noteq> [] then base\<lparr>lgAttrs := lgAttrs base @ [(''correlation_id'', corr)]\<rparr> else base)"

lemma CorrelationID_With [simp]: "CorrelationID (WithCorrelationID ctx corr) = corr"
  by (simp add: CorrelationID_def WithCorrelationID_def)

text \<open>The level names that the configuration accepts are told apart.\<close>

lemma logging_levels:
  "usable cfg \<Longrightarrow> usable cfg' \<Longrightarrow>
   lgLevel (logging_New (LogLevel cfg)) = lgLevel (logging_New (LogLevel cfg')) \<longleftrightarrow> LogLevel cfg = LogLevel cfg'"
  by (auto simp: usable_def logging_New_def)

end
