(* ===== verification/Mesh_Api.thy ===== *)
theory Mesh_Api
  imports Mesh_Reconciler Mesh_Tracker Mesh_Logging
begin

text \<open>
  The HTTP management API, \<open>internal/api\<close>: every handler, the middleware that wraps them and
  the routes, as functions of the request, the state and the response writer.

  The clock is an argument. A handler makes at most one change of the state, under the lock
  of the store it calls; the debug handlers make two reads, and \<open>later\<close> is the state that the
  second one meets. JSON texts are not modelled: decoding a request body is a parameter
  (\<open>None\<close> is a decoding error), and a response body is the value handed to the encoder. The
  handlers of the libraries (\<open>/metrics\<close>, \<open>/debug/pprof\<close>, the mux's own errors) are a parameter.
\<close>

section \<open>Requests and responses\<close>

record registerServiceRequest =
  rqServiceName :: string
  rqNamespace :: string
  rqInstanceID :: string
  rqAddress :: string
  rqPort :: int
  rqProtocol :: string
  rqVersion :: string
  rqMetadata :: "(string, string) gomap option"

text \<open>The path of a request is the list of its decoded segments. It is the path that the mux matches:
  a request whose escaped path is not clean, with dot segments or doubled slashes, is answered
  by the mux with a redirection to the clean path before any pattern is looked at, and is not
  among these requests. A query parameter that is absent reads as the empty string.\<close>

record Request =
  Method :: string
  Segments :: "string list"
  Query :: "(string, string) gomap"
  CorrelationHeader :: string
  Body :: string

record json_decoder =
  decodeRegister :: "string \<Rightarrow> registerServiceRequest option"
  decodeSpec :: "string \<Rightarrow> Spec option"

definition query_Get :: "Request \<Rightarrow> string \<Rightarrow> string" where
  "query_Get rq k = (case go_get (Query rq) k of None \<Rightarrow> [] | Some v \<Rightarrow> v)"

datatype api_error =
    ErrMsg string
  | ErrRegistry registry_error
  | ErrRouting routing_error

record config_view =
  cvService :: string
  cvVersion :: string
  cvClusters :: "string list"
  cvEndpoints :: "string list"
  cvHasRoute :: bool
  cvHasListener :: bool
  cvTrafficSpec :: "Spec option"

datatype body =
    BodyRaw string
  | BodyStatus string
  | BodyError api_error
  | BodyInstances string "Instance list"
  | BodySpec Spec
  | BodyDebugService string string "Instance list" "Spec option"
  | BodyEnvoys int "(int \<times> string \<times> time) list"
  | BodyConfig config_view

text \<open>The writer of \<open>net/http\<close>: the first status written counts, the header is frozen with it, and a
  body written before any status implies 200.\<close>

record ResponseWriter =
  rwHeader :: "(string, string) gomap"
  rwStatus :: "int option"
  rwBody :: "body list"

definition newResponseWriter :: ResponseWriter where
  "newResponseWriter = \<lparr>rwHeader = [], rwStatus = None, rwBody = []\<rparr>"

definition final_status :: "ResponseWriter \<Rightarrow> int" where
  "final_status w = (case rwStatus w of None \<Rightarrow> 200 | Some s \<Rightarrow> s)"

text \<open>The handlers write through the recorder of the metrics middleware.\<close>

record statusRecorder =
  recWriter :: ResponseWriter
  recStatus :: int

definition Header_Set :: "string \<Rightarrow> string \<Rightarrow> ResponseWriter \<Rightarrow> ResponseWriter" where
  "Header_Set k v w = (if rwStatus w = None then w\<lparr>rwHeader := go_set k v (rwHeader w)\<rparr> else w)"

definition rec_Header_Set :: "string \<Rightarrow> string \<Rightarrow> statusRecorder \<Rightarrow> statusRecorder" where
  "rec_Header_Set k v r = r\<lparr>recWriter := Header_Set k v (recWriter r)\<rparr>"

definition rec_WriteHeader :: "int \<Rightarrow> statusRecorder \<Rightarrow> statusRecorder" where
  "rec_WriteHeader status r =
     (let w = recWriter r
      in r\<lparr>recStatus := status,
           recWriter := (if rwStatus w = None then w\<lparr>rwStatus := Some status\<rparr> else w)\<rparr>)"

definition rec_Write :: "body \<Rightarrow> statusRecorder \<Rightarrow> statusRecorder" where
  "rec_Write b r =
     (let w = recWriter r;
          w = (if rwStatus w = None then w\<lparr>rwStatus := Some 200\<rparr> else w)
      in r\<lparr>recWriter := w\<lparr>rwBody := rwBody w @ [b]\<rparr>\<rparr>)"

section \<open>The server\<close>

record 'snap Server =
  srvReady :: bool
  srvRegistry :: InMemory
  srvRoutes :: Store
  srvReconciler :: "'snap Reconciler"
  srvEnvoys :: "metrics ConnectionTracker"

definition SetReady :: "bool \<Rightarrow> 'snap Server \<Rightarrow> 'snap Server" where
  "SetReady ready s = s\<lparr>srvReady := ready\<rparr>"

definition Ready :: "'snap Server \<Rightarrow> bool" where
  "Ready s = srvReady s"

definition defaultStaleAfter :: duration where "defaultStaleAfter = 15 * Second"

definition namespaceOrDefault :: "string \<Rightarrow> string" where
  "namespaceOrDefault ns = (if ns = [] then ''default'' else ns)"

definition writeJSONError :: "int \<Rightarrow> api_error \<Rightarrow> statusRecorder \<Rightarrow> statusRecorder" where
  "writeJSONError status msg w =
     rec_Write (BodyError msg)
       (rec_WriteHeader status (rec_Header_Set ''Content-Type'' ''application/json'' w))"

definition writeJSON :: "body \<Rightarrow> statusRecorder \<Rightarrow> statusRecorder" where
  "writeJSON b w = rec_Write b (rec_Header_Set ''Content-Type'' ''application/json'' w)"

subsection \<open>Health\<close>

definition handleHealthz :: "statusRecorder \<Rightarrow> statusRecorder" where
  "handleHealthz w = rec_Write (BodyRaw ''{\"status\":\"ok\"}'') (rec_WriteHeader 200 w)"

definition handleReadyz :: "'snap Server \<Rightarrow> statusRecorder \<Rightarrow> statusRecorder" where
  "handleReadyz s w =
     (if \<not> Ready s then rec_Write (BodyRaw ''{\"status\":\"not ready\"}'') (rec_WriteHeader 503 w)
      else rec_Write (BodyRaw ''{\"status\":\"ready\"}'') (rec_WriteHeader 200 w))"

subsection \<open>Services\<close>

definition handleRegisterService ::
    "json_decoder \<Rightarrow> time \<Rightarrow> Request \<Rightarrow> 'snap Server \<Rightarrow> statusRecorder \<Rightarrow> 'snap Server \<times> statusRecorder" where
  "handleRegisterService json now rq s w =
     (case decodeRegister json (Body rq) of
        None \<Rightarrow> (s, writeJSONError 400 (ErrMsg ''invalid request body'') w)
      | Some req \<Rightarrow>
          if rqServiceName req = [] \<or> rqInstanceID req = []
          then (s, writeJSONError 400 (ErrMsg ''service_name and instance_id are required'') w)
          else
            let inst = \<lparr>ServiceName = rqServiceName req, Namespace = namespaceOrDefault (rqNamespace req),
                        InstanceID = rqInstanceID req, Address = rqAddress req, Port = rqPort req,
                        Protocol = rqProtocol req, Version = rqVersion req, Metadata = rqMetadata req,
                        Healthy = False, RegisteredAt = 0, LastHeartbeat = 0\<rparr>;
                (reg, err) = Register now inst (srvRegistry s);
                s = s\<lparr>srvRegistry := reg\<rparr>
            in case err of
                 Some e \<Rightarrow> (s, writeJSONError 400 (ErrRegistry e) w)
               | None \<Rightarrow> (s, rec_Write (BodyStatus ''registered'') (rec_WriteHeader 201 w)))"

definition handleDeregisterInstance ::
    "string \<Rightarrow> string \<Rightarrow> Request \<Rightarrow> 'snap Server \<Rightarrow> statusRecorder \<Rightarrow> 'snap Server \<times> statusRecorder" where
  "handleDeregisterInstance name iid rq s w =
     (let ns = namespaceOrDefault (query_Get rq ''namespace'');
          (reg, err) = Deregister ns name iid (srvRegistry s);
          s = s\<lparr>srvRegistry := reg\<rparr>
      in case err of
           Some e \<Rightarrow> (s, writeJSONError 500 (ErrRegistry e) w)
         | None \<Rightarrow> (s, rec_WriteHeader 204 w))"

definition handleHeartbeat ::
    "time \<Rightarrow> string \<Rightarrow> string \<Rightarrow> Request \<Rightarrow> 'snap Server \<Rightarrow> statusRecorder \<Rightarrow> 'snap Server \<times> statusRecorder" where
  "handleHeartbeat now name iid rq s w =
     (let ns = namespaceOrDefault (query_Get rq ''namespace'');
          (reg, err) = Heartbeat now ns name iid (srvRegistry s);
          s = s\<lparr>srvRegistry := reg\<rparr>
      in case err of
           None \<Rightarrow> (s, rec_Write (BodyStatus ''ok'') (rec_WriteHeader 200 w))
         | Some ErrNotFound \<Rightarrow> (s, writeJSONError 404 (ErrMsg ''instance not found'') w)
         | Some e \<Rightarrow> (s, writeJSONError 500 (ErrRegistry e) w))"

definition handleGetService :: "string \<Rightarrow> Request \<Rightarrow> 'snap Server \<Rightarrow> statusRecorder \<Rightarrow> statusRecorder" where
  "handleGetService name rq s w =
     (let ns = namespaceOrDefault (query_Get rq ''namespace'') in
      case GetService ns name (srvRegistry s) of
        Inl ErrNotFound \<Rightarrow> writeJSONError 404 (ErrMsg ''service not found'') w
      | Inl e \<Rightarrow> writeJSON (BodyInstances name []) w
      | Inr instances \<Rightarrow> writeJSON (BodyInstances name instances) w)"

definition handleListInstances :: "time \<Rightarrow> string \<Rightarrow> Request \<Rightarrow> 'snap Server \<Rightarrow> statusRecorder \<Rightarrow> statusRecorder" where
  "handleListInstances now name rq s w =
     (let ns = namespaceOrDefault (query_Get rq ''namespace'');
          healthyOnly = (query_Get rq ''healthy'' = ''true'')
      in if healthyOnly
         then writeJSON (BodyInstances name (HealthyInstances now ns name defaultStaleAfter (srvRegistry s))) w
         else case GetService ns name (srvRegistry s) of
                Inl ErrNotFound \<Rightarrow> writeJSONError 404 (ErrMsg ''service not found'') w
              | Inl e \<Rightarrow> writeJSON (BodyInstances name []) w
              | Inr instances \<Rightarrow> writeJSON (BodyInstances name instances) w)"

subsection \<open>Routes\<close>

definition handlePutRoute ::
    "json_decoder \<Rightarrow> string \<Rightarrow> Request \<Rightarrow> 'snap Server \<Rightarrow> statusRecorder \<Rightarrow> 'snap Server \<times> statusRecorder" where
  "handlePutRoute json name rq s w =
     (case decodeSpec json (Body rq) of
        None \<Rightarrow> (s, writeJSONError 400 (ErrMsg ''invalid request body'') w)
      | Some spec \<Rightarrow>
          let spec = spec\<lparr>Service := name\<rparr>;
              (routes, err) = Store_Set spec (srvRoutes s);
              s = s\<lparr>srvRoutes := routes\<rparr>
          in case err of
               Some e \<Rightarrow> (s, writeJSONError 400 (ErrRouting e) w)
             | None \<Rightarrow> (s, writeJSON (BodyStatus ''route updated'') w))"

definition handleGetRoute :: "string \<Rightarrow> 'snap Server \<Rightarrow> statusRecorder \<Rightarrow> statusRecorder" where
  "handleGetRoute name s w =
     (case Store_Get name (srvRoutes s) of
        None \<Rightarrow> writeJSONError 404 (ErrMsg ''no route configured for service'') w
      | Some spec \<Rightarrow> writeJSON (BodySpec spec) w)"

definition handleDeleteRoute :: "string \<Rightarrow> 'snap Server \<Rightarrow> statusRecorder \<Rightarrow> 'snap Server \<times> statusRecorder" where
  "handleDeleteRoute name s w =
     (s\<lparr>srvRoutes := Store_Delete name (srvRoutes s)\<rparr>, rec_WriteHeader 204 w)"

subsection \<open>Debugging\<close>

definition handleDebugService ::
    "string \<Rightarrow> Request \<Rightarrow> 'snap Server \<Rightarrow> 'snap Server \<Rightarrow> statusRecorder \<Rightarrow> statusRecorder" where
  "handleDebugService name rq later s w =
     (let ns = namespaceOrDefault (query_Get rq ''namespace'') in
      case GetService ns name (srvRegistry s) of
        Inl e \<Rightarrow> writeJSONError 404 (ErrMsg ''service not found'') w
      | Inr instances \<Rightarrow>
          writeJSON (BodyDebugService name ns instances (Store_Get name (srvRoutes later))) w)"

definition handleDebugEnvoys :: "'snap Server \<Rightarrow> 'snap Server \<Rightarrow> statusRecorder \<Rightarrow> statusRecorder" where
  "handleDebugEnvoys later s w =
     (let connected = Connected (srvEnvoys s);
          views = map (\<lambda>c. (StreamID c, envoyNodeID c, ConnectedAt c)) connected
      in writeJSON (BodyEnvoys (Count (srvEnvoys later)) views) w)"

definition hasPrefix :: "string \<Rightarrow> string \<Rightarrow> bool" where
  "hasPrefix s prefix \<longleftrightarrow> length s \<ge> length prefix \<and> take (length prefix) s = prefix"

fun names_loop :: "string \<Rightarrow> (string \<times> 'r) list \<Rightarrow> string list \<Rightarrow> string list" where
  "names_loop service [] names = names"
| "names_loop service ((name, _) # rest) names =
     (if name = service \<or> hasPrefix name (service @ ''::'') then names_loop service rest (names @ [name])
      else names_loop service rest names)"

definition handleDebugConfig ::
    "('any, 'snap) xds_lib \<Rightarrow> string \<Rightarrow> 'snap Server \<Rightarrow> 'snap Server \<Rightarrow> statusRecorder \<Rightarrow> statusRecorder" where
  "handleDebugConfig lib service later s w =
     (case LastSnapshot (srvReconciler s) of
        None \<Rightarrow> writeJSONError 404 (ErrMsg ''no snapshot has been published yet'') w
      | Some snap \<Rightarrow>
          let clusters = GetResources lib snap ClusterType;
              endpoints = GetResources lib snap EndpointType;
              routes = GetResources lib snap RouteType;
              listeners = GetResources lib snap ListenerType
          in writeJSON (BodyConfig
               \<lparr>cvService = service, cvVersion = GetVersion lib snap ClusterType,
                cvClusters = names_loop service clusters [], cvEndpoints = names_loop service endpoints [],
                cvHasRoute = (go_get routes (service @ ''-route'') \<noteq> None),
                cvHasListener = (go_get listeners (service @ ''-listener'') \<noteq> None),
                cvTrafficSpec = Store_Get service (srvRoutes later)\<rparr>) w)"

section \<open>Routes of the mux\<close>

datatype endpoint =
    EpHealthz | EpReadyz | EpMetrics | EpPprof "string list"
  | EpRegisterService | EpDeregisterInstance string string | EpHeartbeat string string
  | EpGetService string | EpListInstances string
  | EpPutRoute string | EpGetRoute string | EpDeleteRoute string
  | EpDebugService string | EpDebugEnvoys | EpDebugConfig string
  | EpNotFound | EpMethodNotAllowed

text \<open>The patterns registered for a path, by method. A wildcard matches one segment that is not
  empty; the empty last segment is a trailing slash.\<close>

definition mux_patterns :: "string list \<Rightarrow> (string \<times> endpoint) list" where
  "mux_patterns path =
     (case path of
        [a] \<Rightarrow>
          if a = ''healthz'' then [(''GET'', EpHealthz)]
          else if a = ''readyz'' then [(''GET'', EpReadyz)]
          else if a = ''metrics'' then [(''GET'', EpMetrics)] else []
      | [a, b] \<Rightarrow> if a = ''v1'' \<and> b = ''services'' then [(''POST'', EpRegisterService)] else []
      | a # b # c # rest \<Rightarrow>
          if a = ''debug'' \<and> b = ''pprof'' then [(''GET'', EpPprof (c # rest))]
          else if a \<noteq> ''v1'' \<or> c = [] then []
          else if b = ''services'' then
            (case rest of
               [] \<Rightarrow> [(''GET'', EpGetService c)]
             | [d] \<Rightarrow> if d = ''instances'' then [(''GET'', EpListInstances c)] else []
             | [d, e] \<Rightarrow> if d = ''instances'' \<and> e \<noteq> [] then [(''DELETE'', EpDeregisterInstance c e)] else []
             | [d, e, f] \<Rightarrow>
                 if d = ''instances'' \<and> e \<noteq> [] \<and> f = ''heartbeat'' then [(''POST'', EpHeartbeat c e)] else []
             | _ \<Rightarrow> [])
          else if b = ''routes'' then
            (if rest = [] then [(''PUT'', EpPutRoute c), (''GET'', EpGetRoute c), (''DELETE'', EpDeleteRoute c)]
             else [])
          else if b = ''debug'' then
            (case rest of
               [] \<Rightarrow> if c = ''envoys'' then [(''GET'', EpDebugEnvoys)] else []
             | [d] \<Rightarrow>
                 if d = [] then []
                 else if c = ''services'' then [(''GET'', EpDebugService d)]
                 else if c = ''config'' then [(''GET'', EpDebugConfig d)] else []
             | _ \<Rightarrow> [])
          else []
      | _ \<Rightarrow> [])"

definition mux_match :: "string \<Rightarrow> string list \<Rightarrow> endpoint" where
  "mux_match method path =
     (let ps = mux_patterns path in
      case find (\<lambda>(m, ep). m = method \<or> m = ''GET'' \<and> method = ''HEAD'') ps of
        Some (m, ep) \<Rightarrow> ep
      | None \<Rightarrow> if ps = [] then EpNotFound else EpMethodNotAllowed)"

text \<open>The parameter \<open>library\<close> answers for the handlers that are not the program's own.\<close>

definition mux_ServeHTTP ::
    "('any, 'snap) xds_lib \<Rightarrow> json_decoder \<Rightarrow> (endpoint \<Rightarrow> Request \<Rightarrow> statusRecorder \<Rightarrow> statusRecorder)
      \<Rightarrow> time \<Rightarrow> Request \<Rightarrow> 'snap Server \<Rightarrow> 'snap Server \<Rightarrow> statusRecorder \<Rightarrow> 'snap Server \<times> statusRecorder" where
  "mux_ServeHTTP lib json library now rq later s w =
     (case mux_match (Method rq) (Segments rq) of
        EpHealthz \<Rightarrow> (s, handleHealthz w)
      | EpReadyz \<Rightarrow> (s, handleReadyz s w)
      | EpRegisterService \<Rightarrow> handleRegisterService json now rq s w
      | EpDeregisterInstance name iid \<Rightarrow> handleDeregisterInstance name iid rq s w
      | EpHeartbeat name iid \<Rightarrow> handleHeartbeat now name iid rq s w
      | EpGetService name \<Rightarrow> (s, handleGetService name rq s w)
      | EpListInstances name \<Rightarrow> (s, handleListInstances now name rq s w)
      | EpPutRoute name \<Rightarrow> handlePutRoute json name rq s w
      | EpGetRoute name \<Rightarrow> (s, handleGetRoute name s w)
      | EpDeleteRoute name \<Rightarrow> handleDeleteRoute name s w
      | EpDebugService name \<Rightarrow> (s, handleDebugService name rq later s w)
      | EpDebugEnvoys \<Rightarrow> (s, handleDebugEnvoys later s w)
      | EpDebugConfig name \<Rightarrow> (s, handleDebugConfig lib name later s w)
      | ep \<Rightarrow> (s, library ep rq w))"

section \<open>Middleware\<close>

text \<open>\<open>http.StatusText\<close>.\<close>

definition StatusText :: "int \<Rightarrow> string" where
  "StatusText code = (case map_of
     [(100, ''Continue''), (101, ''Switching Protocols''), (102, ''Processing''),
      (103, ''Early Hints''), (200, ''OK''), (201, ''Created''), (202, ''Accepted''),
      (203, ''Non-Authoritative Information''), (204, ''No Content''), (205, ''Reset Content''),
      (206, ''Partial Content''), (207, ''Multi-Status''), (208, ''Already Reported''),
      (226, ''IM Used''), (300, ''Multiple Choices''), (301, ''Moved Permanently''),
      (302, ''Found''), (303, ''See Other''), (304, ''Not Modified''), (305, ''Use Proxy''),
      (307, ''Temporary Redirect''), (308, ''Permanent Redirect''), (400, ''Bad Request''),
      (401, ''Unauthorized''), (402, ''Payment Required''), (403, ''Forbidden''),
      (404, ''Not Found''), (405, ''Method Not Allowed''), (406, ''Not Acceptable''),
      (407, ''Proxy Authentication Required''), (408, ''Request Timeout''), (409, ''Conflict''),
      (410, ''Gone''), (411, ''Length Required''), (412, ''Precondition Failed''),
      (413, ''Request Entity Too Large''), (414, ''Request URI Too Long''),
      (415, ''Unsupported Media Type''), (416, ''Requested Range Not Satisfiable''),
      (417, ''Expectation Failed''), (418, (''I'' @ [CHR 0x27] @ ''m a teapot'')),
      (421, ''Misdirected Request''), (422, ''Unprocessable Entity''), (423, ''Locked''),
      (424, ''Failed Dependency''), (425, ''Too Early''), (426, ''Upgrade Required''),
      (428, ''Precondition Required''), (429, ''Too Many Requests''),
      (431, ''Request Header Fields Too Large''), (451, ''Unavailable For Legal Reasons''),
      (500, ''Internal Server Error''), (501, ''Not Implemented''), (502, ''Bad Gateway''),
      (503, ''Service Unavailable''), (504, ''Gateway Timeout''),
      (505, ''HTTP Version Not Supported''), (506, ''Variant Also Negotiates''),
      (507, ''Insufficient Storage''), (508, ''Loop Detected''), (510, ''Not Extended''),
      (511, ''Network Authentication Required'')] code of
       None \<Rightarrow> [] | Some t \<Rightarrow> t)"

definition url_path :: "Request \<Rightarrow> string" where
  "url_path rq = concat (map (\<lambda>seg. ''/'' @ seg) (Segments rq))"

definition withMetrics ::
    "(statusRecorder \<Rightarrow> 'st \<times> statusRecorder) \<Rightarrow> time \<Rightarrow> time \<Rightarrow> Request \<Rightarrow> ResponseWriter \<Rightarrow> metrics
      \<Rightarrow> 'st \<times> ResponseWriter \<times> metrics" where
  "withMetrics nxt start done rq w tr =
     (let rec = \<lparr>recWriter = w, recStatus = 200\<rparr>;
          (st, rec) = nxt rec;
          path = url_path rq
      in (st, recWriter rec,
          tr @ [MetricCall HTTPRequestDuration [path, Method rq] (MObserve (time_Sub done start)),
                MetricCall HTTPRequestsTotal [path, Method rq, StatusText (recStatus rec)] MInc]))"

text \<open>Eight random bytes in hexadecimal; \<open>None\<close> is a failing random source.\<close>

definition hex_digit :: "nat \<Rightarrow> char" where
  "hex_digit d = (if d < 10 then char_of (48 + d) else char_of (87 + d))"

definition newCorrelationID :: "(8 word) list option \<Rightarrow> string" where
  "newCorrelationID rnd =
     (case rnd of
        None \<Rightarrow> ''unknown''
      | Some buf \<Rightarrow> concat (map (\<lambda>b. [hex_digit (unat b div 16), hex_digit (unat b mod 16)]) (take 8 buf)))"

definition withCorrelationID ::
    "(8 word) list option \<Rightarrow> Request \<Rightarrow> Context \<Rightarrow> ResponseWriter \<Rightarrow> Context \<times> ResponseWriter" where
  "withCorrelationID rnd rq ctx w =
     (let corr = CorrelationHeader rq;
          corr = (if corr = [] then newCorrelationID rnd else corr)
      in (WithCorrelationID ctx corr, Header_Set ''X-Correlation-ID'' corr w))"

text \<open>A request through the whole chain: the new state, the response, the metrics, the context that
  the handlers log with.\<close>

definition api_ServeHTTP ::
    "('any, 'snap) xds_lib \<Rightarrow> json_decoder \<Rightarrow> (endpoint \<Rightarrow> Request \<Rightarrow> statusRecorder \<Rightarrow> statusRecorder)
      \<Rightarrow> (8 word) list option \<Rightarrow> time \<Rightarrow> time \<Rightarrow> time \<Rightarrow> Request \<Rightarrow> 'snap Server \<Rightarrow> metrics \<Rightarrow> 'snap Server
      \<Rightarrow> 'snap Server \<times> ResponseWriter \<times> metrics \<times> Context" where
  "api_ServeHTTP lib json library rnd start now done rq later tr s =
     (let (ctx, w) = withCorrelationID rnd rq [] newResponseWriter;
          (s, w, tr) = withMetrics (mux_ServeHTTP lib json library now rq later s) start done rq w tr
      in (s, w, tr, ctx))"

text \<open>The \<open>http.Server\<close> that \<open>New\<close> configures around the chain, and its address.\<close>

record http_Server =
  srvAddr :: string
  srvReadTimeout :: duration
  srvWriteTimeout :: duration
  srvIdleTimeout :: duration

definition api_httpServer :: "Config \<Rightarrow> http_Server" where
  "api_httpServer cfg =
     \<lparr>srvAddr = HTTPAddr cfg, srvReadTimeout = ReadTimeout cfg, srvWriteTimeout = WriteTimeout cfg,
      srvIdleTimeout = IdleTimeout cfg\<rparr>"

definition Addr :: "Config \<Rightarrow> string" where
  "Addr cfg = srvAddr (api_httpServer cfg)"

text \<open>A loaded configuration gives a server whose timeouts are all in force: a duration that is not
  positive would switch them off.\<close>

lemma loaded_server:
  assumes "Load frac getenv = Inr cfg"
  shows "0 < srvReadTimeout (api_httpServer cfg)" and "0 < srvWriteTimeout (api_httpServer cfg)"
    and "0 < srvIdleTimeout (api_httpServer cfg)" and "Atoi (portOf (Addr cfg)) \<noteq> None"
proof -
  have "config_Validate cfg = None"
    using assms by (auto simp: Load_def Let_def split: sum.splits option.splits)
  then have "usable cfg" by (simp add: config_Validate_None)
  then show "0 < srvReadTimeout (api_httpServer cfg)" and "0 < srvWriteTimeout (api_httpServer cfg)"
    and "0 < srvIdleTimeout (api_httpServer cfg)" and "Atoi (portOf (Addr cfg)) \<noteq> None"
    by (simp_all add: usable_def duration_vars_def api_httpServer_def Addr_def)
qed

section \<open>What a request does\<close>

text \<open>The calls on the two stores that a request stands for: at most one in all.\<close>

definition request_instance :: "registerServiceRequest \<Rightarrow> Instance" where
  "request_instance req =
     \<lparr>ServiceName = rqServiceName req, Namespace = namespaceOrDefault (rqNamespace req),
      InstanceID = rqInstanceID req, Address = rqAddress req, Port = rqPort req,
      Protocol = rqProtocol req, Version = rqVersion req, Metadata = rqMetadata req,
      Healthy = False, RegisteredAt = 0, LastHeartbeat = 0\<rparr>"

definition registry_ops :: "json_decoder \<Rightarrow> time \<Rightarrow> Request \<Rightarrow> reg_op list" where
  "registry_ops json now rq =
     (let ns = namespaceOrDefault (query_Get rq ''namespace'') in
      case mux_match (Method rq) (Segments rq) of
        EpRegisterService \<Rightarrow>
          (case decodeRegister json (Body rq) of None \<Rightarrow> [] | Some req \<Rightarrow> [OpRegister now (request_instance req)])
      | EpDeregisterInstance name iid \<Rightarrow> [OpDeregister ns name iid]
      | EpHeartbeat name iid \<Rightarrow> [OpHeartbeat now ns name iid]
      | _ \<Rightarrow> [])"

definition route_ops :: "json_decoder \<Rightarrow> Request \<Rightarrow> store_op list" where
  "route_ops json rq =
     (case mux_match (Method rq) (Segments rq) of
        EpPutRoute name \<Rightarrow>
          (case decodeSpec json (Body rq) of None \<Rightarrow> [] | Some spec \<Rightarrow> [OpSet (spec\<lparr>Service := name\<rparr>)])
      | EpDeleteRoute name \<Rightarrow> [OpDelete name]
      | _ \<Rightarrow> [])"

text \<open>The status that the API documents for each endpoint, over the contents of the stores; \<open>None\<close>
  where a library answers.\<close>

definition known :: "InMemory \<Rightarrow> string \<Rightarrow> string \<Rightarrow> bool" where
  "known r ns name \<longleftrightarrow> find_instance r (key ns name) \<noteq> Map.empty"

definition expected_status :: "json_decoder \<Rightarrow> Request \<Rightarrow> 'snap Server \<Rightarrow> int option" where
  "expected_status json rq s =
     (let ns = namespaceOrDefault (query_Get rq ''namespace'') in
      case mux_match (Method rq) (Segments rq) of
        EpHealthz \<Rightarrow> Some 200
      | EpReadyz \<Rightarrow> Some (if Ready s then 200 else 503)
      | EpRegisterService \<Rightarrow>
          Some (case decodeRegister json (Body rq) of
                  None \<Rightarrow> 400
                | Some req \<Rightarrow> if rqServiceName req = [] \<or> rqInstanceID req = [] then 400 else 201)
      | EpDeregisterInstance name iid \<Rightarrow> Some 204
      | EpHeartbeat name iid \<Rightarrow> Some (if find_instance (srvRegistry s) (key ns name) iid = None then 404 else 200)
      | EpGetService name \<Rightarrow> Some (if known (srvRegistry s) ns name then 200 else 404)
      | EpListInstances name \<Rightarrow>
          Some (if query_Get rq ''healthy'' = ''true'' \<or> known (srvRegistry s) ns name then 200 else 404)
      | EpPutRoute name \<Rightarrow>
          Some (case decodeSpec json (Body rq) of
                  None \<Rightarrow> 400
                | Some spec \<Rightarrow> if Validate (spec\<lparr>Service := name\<rparr>) = None then 200 else 400)
      | EpGetRoute name \<Rightarrow> Some (if Store_Get name (srvRoutes s) = None then 404 else 200)
      | EpDeleteRoute name \<Rightarrow> Some 204
      | EpDebugService name \<Rightarrow> Some (if known (srvRegistry s) ns name then 200 else 404)
      | EpDebugEnvoys \<Rightarrow> Some 200
      | EpDebugConfig name \<Rightarrow> Some (if LastSnapshot (srvReconciler s) = None then 404 else 200)
      | _ \<Rightarrow> None)"

section \<open>Lemmas\<close>

lemma GetService_Inl: "GetService ns name r = Inl e \<longleftrightarrow> e = ErrNotFound \<and> \<not> known r ns name"
  by (auto simp: GetService_eq known_def all_instances_Nil_iff)

lemma GetService_Inr: "GetService ns name r = Inr is \<Longrightarrow> known r ns name"
  by (auto simp: GetService_eq known_def all_instances_Nil_iff split: if_splits)

lemma Heartbeat_err:
  "snd (Heartbeat now ns name iid r) = (if find_instance r (key ns name) iid = None then Some ErrNotFound else None)"
  by (auto simp: Heartbeat_def Let_def find_instance_def split: option.splits)

lemma Deregister_err [simp]: "snd (Deregister ns name iid r) = None"
  by (simp add: Deregister_def Let_def split: option.split)

lemma Register_err:
  "snd (Register now inst r) = (if ServiceName inst = [] \<or> InstanceID inst = [] then Some ErrRequired else None)"
  by (simp add: Register_def Let_def)

lemma Store_Set_err: "snd (Store_Set spec st) = Validate spec"
  by (simp add: Store_Set_def split: option.split)

text \<open>A recorder to which nothing has been written, and one that has answered once.\<close>

definition fresh :: "statusRecorder \<Rightarrow> bool" where
  "fresh w \<longleftrightarrow> rwStatus (recWriter w) = None"

definition answered :: "int \<Rightarrow> body list \<Rightarrow> statusRecorder \<Rightarrow> statusRecorder \<Rightarrow> bool" where
  "answered st bs w w' \<longleftrightarrow>
     recStatus w' = st \<and> rwStatus (recWriter w') = Some st
     \<and> rwBody (recWriter w') = rwBody (recWriter w) @ bs
     \<and> (\<forall>k. k \<noteq> ''Content-Type'' \<longrightarrow> go_get (rwHeader (recWriter w')) k = go_get (rwHeader (recWriter w)) k)"

lemma answered_rules:
  assumes "fresh w" and "recStatus w = 200"
  shows "answered st [BodyError e] w (writeJSONError st e w)"
    and "answered 200 [b] w (writeJSON b w)"
    and "answered st [] w (rec_WriteHeader st w)"
    and "answered st [b] w (rec_Write b (rec_WriteHeader st w))"
  using assms
  by (simp_all add: fresh_def answered_def writeJSONError_def writeJSON_def rec_Write_def rec_WriteHeader_def
      rec_Header_Set_def Header_Set_def Let_def)

lemmas handler_defs = handleHealthz_def handleReadyz_def handleDeregisterInstance_def
  handleGetService_def handleListInstances_def handleGetRoute_def handleDeleteRoute_def
  handleDebugService_def handleDebugEnvoys_def handleDebugConfig_def

text \<open>Effect and answer of each handler that changes the state.\<close>

lemma handleRegisterService_eq:
  "handleRegisterService json now rq s w =
     (case decodeRegister json (Body rq) of
        None \<Rightarrow> (s, writeJSONError 400 (ErrMsg ''invalid request body'') w)
      | Some req \<Rightarrow>
          (s\<lparr>srvRegistry := reg_step (OpRegister now (request_instance req)) (srvRegistry s)\<rparr>,
           if rqServiceName req = [] \<or> rqInstanceID req = []
           then writeJSONError 400 (ErrMsg ''service_name and instance_id are required'') w
           else rec_Write (BodyStatus ''registered'') (rec_WriteHeader 201 w)))"
proof -
  have "reg_step (OpRegister now (request_instance req)) (srvRegistry s) = srvRegistry s"
    if "rqServiceName req = [] \<or> rqInstanceID req = []" for req
    using that by (auto simp: Register_def request_instance_def)
  moreover have "snd (Register now (request_instance req) r) =
      (if rqServiceName req = [] \<or> rqInstanceID req = [] then Some ErrRequired else None)" for req r
    by (simp add: Register_err request_instance_def)
  ultimately show ?thesis
    unfolding handleRegisterService_def request_instance_def [symmetric]
    by (auto simp: Let_def case_prod_unfold split: option.split)
qed

lemma handleDeregisterInstance_eq:
  "handleDeregisterInstance name iid rq s w =
     (s\<lparr>srvRegistry := reg_step (OpDeregister (namespaceOrDefault (query_Get rq ''namespace'')) name iid) (srvRegistry s)\<rparr>,
      rec_WriteHeader 204 w)"
  by (simp add: handleDeregisterInstance_def Let_def case_prod_unfold)

lemma handleHeartbeat_eq:
  fixes rq :: Request
  defines "ns \<equiv> namespaceOrDefault (query_Get rq ''namespace'')"
  shows "handleHeartbeat now name iid rq s w =
     (s\<lparr>srvRegistry := reg_step (OpHeartbeat now ns name iid) (srvRegistry s)\<rparr>,
      if find_instance (srvRegistry s) (key ns name) iid = None
      then writeJSONError 404 (ErrMsg ''instance not found'') w
      else rec_Write (BodyStatus ''ok'') (rec_WriteHeader 200 w))"
  by (simp add: handleHeartbeat_def ns_def Let_def case_prod_unfold Heartbeat_err)

lemma handlePutRoute_eq:
  "handlePutRoute json name rq s w =
     (case decodeSpec json (Body rq) of
        None \<Rightarrow> (s, writeJSONError 400 (ErrMsg ''invalid request body'') w)
      | Some spec \<Rightarrow>
          (s\<lparr>srvRoutes := store_step (OpSet (spec\<lparr>Service := name\<rparr>)) (srvRoutes s)\<rparr>,
           case Validate (spec\<lparr>Service := name\<rparr>) of
             Some e \<Rightarrow> writeJSONError 400 (ErrRouting e) w
           | None \<Rightarrow> writeJSON (BodyStatus ''route updated'') w))"
  by (simp add: handlePutRoute_def Let_def case_prod_unfold Store_Set_err split: option.split)

lemmas handler_eqs = handleRegisterService_eq handleDeregisterInstance_eq handleHeartbeat_eq handlePutRoute_eq

lemma mux_effect:
  "fst (mux_ServeHTTP lib json library now rq later s w) =
     s\<lparr>srvRegistry := fold reg_step (registry_ops json now rq) (srvRegistry s),
       srvRoutes := fold store_step (route_ops json rq) (srvRoutes s)\<rparr>"
  by (cases "mux_match (Method rq) (Segments rq)")
    (simp_all add: mux_ServeHTTP_def registry_ops_def route_ops_def handler_eqs handleDeleteRoute_def
      Let_def split: option.split)

lemma mux_answered:
  assumes "fresh w" and "recStatus w = 200" and "expected_status json rq s = Some st"
  shows "\<exists>bs. answered st bs w (snd (mux_ServeHTTP lib json library now rq later s w))"
proof -
  note rules = answered_rules [OF assms(1,2)]
  have "\<exists>bs. answered st bs w (writeJSONError st e w)" "\<exists>bs. answered 200 bs w (writeJSON b w)"
    "\<exists>bs. answered st bs w (rec_WriteHeader st w)" "\<exists>bs. answered st bs w (rec_Write b (rec_WriteHeader st w))"
    for st e b using rules by blast+
  then show ?thesis
    using assms(3)
    by (cases "mux_match (Method rq) (Segments rq)")
      (auto simp: mux_ServeHTTP_def expected_status_def handler_eqs handler_defs Let_def GetService_Inl
        split: option.splits if_splits sum.splits registry_error.splits dest: GetService_Inr)
qed

text \<open>The recorder that the middleware hands to the mux.\<close>

lemma withMetrics_eq:
  "withMetrics nxt start end rq w tr =
     (fst (nxt \<lparr>recWriter = w, recStatus = 200\<rparr>), recWriter (snd (nxt \<lparr>recWriter = w, recStatus = 200\<rparr>)),
      tr @ [MetricCall HTTPRequestDuration [url_path rq, Method rq] (MObserve (time_Sub end start)),
            MetricCall HTTPRequestsTotal [url_path rq, Method rq,
              StatusText (recStatus (snd (nxt \<lparr>recWriter = w, recStatus = 200\<rparr>)))] MInc])"
  by (simp add: withMetrics_def Let_def case_prod_unfold)

definition entry_writer :: "(8 word) list option \<Rightarrow> Request \<Rightarrow> statusRecorder" where
  "entry_writer rnd rq = \<lparr>recWriter = snd (withCorrelationID rnd rq [] newResponseWriter), recStatus = 200\<rparr>"

lemma entry_writer_fresh [simp]: "fresh (entry_writer rnd rq)" "recStatus (entry_writer rnd rq) = 200"
    "rwBody (recWriter (entry_writer rnd rq)) = []"
    "go_get (rwHeader (recWriter (entry_writer rnd rq))) ''X-Correlation-ID'' =
       Some (CorrelationID (fst (withCorrelationID rnd rq [] newResponseWriter)))"
  by (simp_all add: entry_writer_def fresh_def withCorrelationID_def Header_Set_def newResponseWriter_def Let_def)

lemma api_eq:
  fixes lib json library now rq later s rnd
  defines "res \<equiv> mux_ServeHTTP lib json library now rq later s (entry_writer rnd rq)"
  shows "api_ServeHTTP lib json library rnd start now end rq later tr s =
    (fst res, recWriter (snd res),
     tr @ [MetricCall HTTPRequestDuration [url_path rq, Method rq] (MObserve (time_Sub end start)),
           MetricCall HTTPRequestsTotal [url_path rq, Method rq, StatusText (recStatus (snd res))] MInc],
     fst (withCorrelationID rnd rq [] newResponseWriter))"
  by (simp add: api_ServeHTTP_def res_def withMetrics_eq entry_writer_def Let_def case_prod_unfold)

lemma hasPrefix_iff: "hasPrefix n p \<longleftrightarrow> (\<exists>t. n = p @ t)"
  by (auto simp: hasPrefix_def take_drop_prefix)

lemma names_loop_eq:
  "names_loop svc es names =
     names @ filter (\<lambda>n. n = svc \<or> hasPrefix n (svc @ ''::'')) (map fst es)"
  by (induction svc es names rule: names_loop.induct) auto

lemma clusterName_prefix:
  assumes "CHR '':'' \<notin> set svc" and "CHR '':'' \<notin> set svc'"
  shows "clusterName svc' v = svc \<or> hasPrefix (clusterName svc' v) (svc @ ''::'') \<longleftrightarrow> svc' = svc"
proof -
  have no: "svc' @ CHR '':'' # x \<noteq> svc" "svc @ CHR '':'' # x \<noteq> svc'" for x using assms by auto
  show ?thesis
    using append_sep_inject [OF assms(2,1), of "CHR '':'' # v"] no no [symmetric]
    by (auto simp: clusterName_def hasPrefix_iff)
qed

text \<open>Among the clusters of a snapshot, the names that belong to a service are those of its splits.\<close>

lemma own_clusters:
  assumes "\<forall>n \<in> set (services_of r). CHR '':'' \<notin> set n" and "svc \<in> set (services_of r)"
  shows "{n \<in> set (map cName (built_clusters r routes)). n = svc \<or> hasPrefix n (svc @ ''::'')}
      = (\<lambda>sp. clusterName svc (vwVersion sp)) ` set (splits_of routes svc)"
proof -
  have names: "set (map cName (built_clusters r routes)) =
      {clusterName n (vwVersion sp) | n sp. n \<in> set (services_of r) \<and> sp \<in> set (splits_of routes n)}"
    by (force simp: built_clusters_def service_clusters_def)
  have own: "n = svc" if "n \<in> set (services_of r)" "clusterName n v = svc \<or> hasPrefix (clusterName n v) (svc @ ''::'')" for n v
    using clusterName_prefix [of svc n v] assms that by blast
  have mine: "clusterName svc v = svc \<or> hasPrefix (clusterName svc v) (svc @ ''::'')" for v
    using clusterName_prefix [of svc svc v] assms by blast
  show ?thesis
  proof (intro equalityI subsetI)
    fix x assume "x \<in> {n \<in> set (map cName (built_clusters r routes)). n = svc \<or> hasPrefix n (svc @ ''::'')}"
    then obtain n sp where x: "x = clusterName n (vwVersion sp)" "n \<in> set (services_of r)" "sp \<in> set (splits_of routes n)"
      "x = svc \<or> hasPrefix x (svc @ ''::'')"
      unfolding names by blast
    then have "n = svc" using own by blast
    with x show "x \<in> (\<lambda>sp. clusterName svc (vwVersion sp)) ` set (splits_of routes svc)" by simp
  qed (use assms(2) mine names in blast)
qed

section \<open>Properties\<close>

text \<open>C11. A request changes the state by at most one call on one of the stores: registrations,
  deregistrations and heartbeats reach the registry with the namespace defaulted, route
  changes reach the route store under the service of the path, and every other request,
  rejected ones included, leaves the whole server as it was. So the invariants of both
  stores hold after any request.\<close>

theorem request_effect:
  fixes lib :: "('any, 'snap) xds_lib"
  defines "srv json library rnd start now end rq later tr s \<equiv>
    fst (api_ServeHTTP lib json library rnd start now end rq later tr s)"
  shows "srv json library rnd start now end rq later tr s =
      s\<lparr>srvRegistry := fold reg_step (registry_ops json now rq) (srvRegistry s),
        srvRoutes := fold store_step (route_ops json rq) (srvRoutes s)\<rparr>
    \<and> length (registry_ops json now rq) + length (route_ops json rq) \<le> 1
    \<and> (reg_inv (srvRegistry s) \<longrightarrow> reg_inv (srvRegistry (srv json library rnd start now end rq later tr s)))
    \<and> (store_inv (srvRoutes s) \<longrightarrow> store_inv (srvRoutes (srv json library rnd start now end rq later tr s)))"
proof -
  have "length (registry_ops json now rq) + length (route_ops json rq) \<le> 1"
    by (cases "mux_match (Method rq) (Segments rq)")
      (simp_all add: registry_ops_def route_ops_def Let_def split: option.split)
  then show ?thesis
    unfolding srv_def api_eq fst_conv mux_effect by (simp add: reg_inv_fold store_inv_fold)
qed

definition sample_server :: "ref_snap Server" where
  "sample_server =
     \<lparr>srvReady = True, srvRegistry = New, srvRoutes = NewStore, srvReconciler = sample_reconciler,
      srvEnvoys = control_plane_tracker\<rparr>"

definition sample_json :: json_decoder where
  "sample_json =
     \<lparr>decodeRegister = (\<lambda>_. Some \<lparr>rqServiceName = ''a'', rqNamespace = [], rqInstanceID = ''i1'',
        rqAddress = ''10.0.0.1'', rqPort = 9000, rqProtocol = [], rqVersion = [], rqMetadata = None\<rparr>),
      decodeSpec = (\<lambda>_. Some (sample_spec ''other'' [(''v1'', 90), (''v2'', 10)]))\<rparr>"

definition sample_request :: "string \<Rightarrow> string list \<Rightarrow> Request" where
  "sample_request m path = \<lparr>Method = m, Segments = path, Query = [], CorrelationHeader = [], Body = []\<rparr>"

theorem request_effect_witness:
  "let s = fst (api_ServeHTTP ref_lib sample_json (\<lambda>_ _ w. w) None 5 5 5
                  (sample_request ''POST'' [''v1'', ''services'']) sample_server [] sample_server)
   in reg_inv (srvRegistry s)
      \<and> find_instance (srvRegistry s) ''default/a'' ''i1'' = Some (registered 5 (sample_instance ''default'' ''a'' ''i1'' []))"
proof -
  let ?rq = "sample_request ''POST'' [''v1'', ''services'']"
  have ops: "registry_ops sample_json 5 ?rq = [OpRegister 5 (sample_instance ''default'' ''a'' ''i1'' [])]"
    by (simp add: registry_ops_def mux_match_def mux_patterns_def sample_request_def sample_json_def
        request_instance_def sample_instance_def namespaceOrDefault_def)
  have "find_instance (reg_step (OpRegister 5 (sample_instance ''default'' ''a'' ''i1'' [])) New) ''default/a'' ''i1''
      = Some (registered 5 (sample_instance ''default'' ''a'' ''i1'' []))"
    by (simp add: registry_eval)
  then show ?thesis
    using request_effect [of ref_lib sample_json "\<lambda>_ _ w. w" None 5 5 5 ?rq sample_server "[]" sample_server]
    by (simp add: Let_def ops sample_server_def reg_inv_New reg_inv_Register)
qed

text \<open>C31. Every answer of the program's own handlers: the response has the status that the endpoint's
  contract gives for the contents of the stores, the request counter is incremented under
  exactly that status, and the response carries the correlation ID that the handlers log
  with, the client's own if it sent one.\<close>

theorem request_answer:
  fixes lib :: "('any, 'snap) xds_lib"
  shows "case expected_status json rq s of
      None \<Rightarrow> True
    | Some st \<Rightarrow>
        (case api_ServeHTTP lib json library rnd start now end rq later tr s of
           (s', w, tr', ctx) \<Rightarrow>
             final_status w = st
             \<and> last tr' = MetricCall HTTPRequestsTotal [url_path rq, Method rq, StatusText st] MInc
             \<and> go_get (rwHeader w) ''X-Correlation-ID'' = Some (CorrelationID ctx)
             \<and> CorrelationID ctx = (if CorrelationHeader rq = [] then newCorrelationID rnd else CorrelationHeader rq))"
proof (cases "expected_status json rq s")
  case (Some st)
  obtain bs where "answered st bs (entry_writer rnd rq)
      (snd (mux_ServeHTTP lib json library now rq later s (entry_writer rnd rq)))"
    using mux_answered [OF entry_writer_fresh(1,2) Some] by blast
  with Some show ?thesis
    unfolding api_eq answered_def
    by (simp add: final_status_def withCorrelationID_def Let_def)
qed simp

text \<open>C32. Round trip of routes: a specification put for a service is what a later get returns, filed
  under the service of the path whatever the body says; a put that fails validation answers
  400 with the validation's error, and the get then answers as before the put.\<close>

theorem route_round_trip:
  fixes lib :: "('any, 'snap) xds_lib"
  assumes "name \<noteq> []" and "Method put = ''PUT''" and "Segments put = [''v1'', ''routes'', name]"
    and "Method get = ''GET''" and "Segments get = [''v1'', ''routes'', name]"
    and "decodeSpec json (Body put) = Some spec"
    and "api_ServeHTTP lib json library rnd t1 t2 t3 put s0 tr s = (s1, w1, tr1, ctx1)"
    and "api_ServeHTTP lib json library rnd' t4 t5 t6 get s1 tr1 s1 = (s2, w2, tr2, ctx2)"
  shows "case Validate (spec\<lparr>Service := name\<rparr>) of
      None \<Rightarrow> final_status w1 = 200 \<and> final_status w2 = 200 \<and> rwBody w2 = [BodySpec (spec\<lparr>Service := name\<rparr>)]
    | Some e \<Rightarrow> final_status w1 = 400 \<and> rwBody w1 = [BodyError (ErrRouting e)] \<and> s1 = s
        \<and> (case Store_Get name (srvRoutes s) of
             None \<Rightarrow> final_status w2 = 404
           | Some old \<Rightarrow> final_status w2 = 200 \<and> rwBody w2 = [BodySpec old])"
proof -
  have ep: "mux_match (Method put) (Segments put) = EpPutRoute name"
    "mux_match (Method get) (Segments get) = EpGetRoute name"
    using assms(1-5) by (simp_all add: mux_match_def mux_patterns_def)
  let ?spec = "spec\<lparr>Service := name\<rparr>"
  have err: "answered st [BodyError e] (entry_writer q rq) (writeJSONError st e (entry_writer q rq))"
    and ok: "answered 200 [b] (entry_writer q rq) (writeJSON b (entry_writer q rq))" for st e b q rq
    by (rule answered_rules; simp)+
  have put: "s1 = s\<lparr>srvRoutes := fst (Store_Set ?spec (srvRoutes s))\<rparr>"
    "w1 = recWriter (case Validate ?spec of
        Some e \<Rightarrow> writeJSONError 400 (ErrRouting e) (entry_writer rnd put)
      | None \<Rightarrow> writeJSON (BodyStatus ''route updated'') (entry_writer rnd put))"
    using assms(7) unfolding api_eq mux_ServeHTTP_def ep by (auto simp: handlePutRoute_eq assms(6))
  have get: "w2 = recWriter (case Store_Get name (srvRoutes s1) of
        None \<Rightarrow> writeJSONError 404 (ErrMsg ''no route configured for service'') (entry_writer rnd' get)
      | Some sp \<Rightarrow> writeJSON (BodySpec sp) (entry_writer rnd' get))"
    using assms(8) unfolding api_eq mux_ServeHTTP_def ep by (auto simp: handleGetRoute_def split: option.splits)
  show ?thesis
    using err [of 400 _ rnd put] err [of 404 _ rnd' get] ok [of _ rnd put] ok [of _ rnd' get]
    by (auto simp: put get Store_Set_def Store_Get_def answered_def final_status_def split: option.split)
qed

theorem route_round_trip_witness:
  "let put = sample_request ''PUT'' [''v1'', ''routes'', ''a'']; get = sample_request ''GET'' [''v1'', ''routes'', ''a''];
       (s1, w1, tr1, ctx1) = api_ServeHTTP ref_lib sample_json (\<lambda>_ _ w. w) None 5 5 5 put sample_server [] sample_server;
       (s2, w2, tr2, ctx2) = api_ServeHTTP ref_lib sample_json (\<lambda>_ _ w. w) None 6 6 6 get s1 tr1 s1
   in final_status w1 = 200 \<and> rwBody w2 = [BodySpec (sample_spec ''a'' [(''v1'', 90), (''v2'', 10)])]"
proof -
  let ?put = "sample_request ''PUT'' [''v1'', ''routes'', ''a'']" and ?get = "sample_request ''GET'' [''v1'', ''routes'', ''a'']"
  obtain s1 w1 tr1 ctx1 where r1:
    "api_ServeHTTP ref_lib sample_json (\<lambda>_ _ w. w) None 5 5 5 ?put sample_server [] sample_server = (s1, w1, tr1, ctx1)"
    by (metis prod.exhaust)
  obtain s2 w2 tr2 ctx2 where r2:
    "api_ServeHTTP ref_lib sample_json (\<lambda>_ _ w. w) None 6 6 6 ?get s1 tr1 s1 = (s2, w2, tr2, ctx2)"
    by (metis prod.exhaust)
  have valid: "Validate (sample_spec ''a'' [(''v1'', 90), (''v2'', 10)]) = None"
    by (simp add: Validate_def sample_spec_def)
  have "(sample_spec ''other'' [(''v1'', 90), (''v2'', 10)])\<lparr>Service := ''a''\<rparr> = sample_spec ''a'' [(''v1'', 90), (''v2'', 10)]"
    by (simp add: sample_spec_def)
  with route_round_trip [OF _ _ _ _ _ _ r1 r2, of "''a''" "sample_spec ''other'' [(''v1'', 90), (''v2'', 10)]"] valid
  have "final_status w1 = 200 \<and> rwBody w2 = [BodySpec (sample_spec ''a'' [(''v1'', 90), (''v2'', 10)])]"
    by (simp add: sample_request_def sample_json_def)
  with r1 r2 show ?thesis by simp
qed

text \<open>C33. The configuration view of a service reports the published snapshot: its version, that the
  route and the listener of the service are there, and as clusters and as endpoint resources
  exactly the clusters of the service's splits, for service names without a colon.\<close>

theorem debug_config_reports_snapshot:
  assumes "lib_snapshots lib" and "BuildSnapshot lib r routes obs v = Inr snap" and "routes_ok routes"
    and "\<forall>n \<in> set (ListServices xds_Namespace r). CHR '':'' \<notin> set n" and "svc \<in> set (ListServices xds_Namespace r)"
    and "LastSnapshot (srvReconciler s) = Some snap"
  shows "\<exists>cv. handleDebugConfig lib svc later s w = writeJSON (BodyConfig cv) w
    \<and> cvVersion cv = v \<and> cvHasRoute cv \<and> cvHasListener cv
    \<and> set (cvClusters cv) = (\<lambda>sp. clusterName svc (vwVersion sp)) ` set (splits_of routes svc)
    \<and> set (cvEndpoints cv) = (\<lambda>sp. clusterName svc (vwVersion sp)) ` set (splits_of routes svc)"
proof -
  obtain lns where lns: "built_listeners lib 0 (services_of r) lns"
    and ix: "indexed lib snap v (snapshot_input r routes obs lns)"
    using indexed_build [OF assms(1,2)] by blast
  have svcs: "set (services_of r) = set (ListServices xds_Namespace r)" by (simp add: services_of_def)
  note own = own_clusters [of r svc routes, unfolded svcs, OF assms(4,5)]
  have present: "go_get (GetResources lib snap t) n \<noteq> None \<longleftrightarrow> n \<in> resource_names lib snap t" for t n
    by (simp add: resource_names_def go_get_None_iff)
  have "svc @ ''-route'' \<in> resource_names lib snap RouteType"
    using assms(5) svcs by (auto simp: indexed_names [OF ix] image_image)
  moreover have "svc @ ''-listener'' \<in> resource_names lib snap ListenerType"
    using built_listeners_mem(2) [OF lns, of svc] assms(5) svcs buildListener_Inr
    by (force simp: indexed_names [OF ix])
  moreover have "resource_names lib snap ClusterType = set (map cName (built_clusters r routes))"
    by (simp add: indexed_names [OF ix] image_image)
  moreover have "resource_names lib snap EndpointType = set (map claClusterName (built_endpoints r routes obs))"
    by (simp add: indexed_names [OF ix] image_image)
  moreover have "GetVersion lib snap ClusterType = v" using ix by (simp add: indexed_def)
  ultimately show ?thesis
    using own present cluster_endpoint_names [of r routes obs]
    by (simp add: handleDebugConfig_def assms(6) names_loop_eq resource_names_def)
      (rule exI, rule conjI, rule refl, simp)
qed

theorem debug_config_reports_snapshot_witness:
  "let r = sample_registry [sample_instance ''default'' ''a'' ''i1'' []] in
   \<exists>snap cv. BuildSnapshot ref_lib r None (still r 6) ''v1'' = Inr snap
     \<and> handleDebugConfig ref_lib ''a'' sample_server
          (sample_server\<lparr>srvReconciler := sample_reconciler\<lparr>lastSnapshot := Some snap\<rparr>\<rparr>) (entry_writer None (sample_request ''GET'' []))
        = writeJSON (BodyConfig cv) (entry_writer None (sample_request ''GET'' []))
     \<and> cvVersion cv = ''v1'' \<and> set (cvClusters cv) = {''a''} \<and> cvHasListener cv"
proof -
  let ?r = "sample_registry [sample_instance ''default'' ''a'' ''i1'' []]"
  have ls: "ListServices xds_Namespace ?r = [''a'']" by (simp add: build_eval)
  obtain snap where b: "BuildSnapshot ref_lib ?r None (still ?r 6) ''v1'' = Inr snap"
    using ref_build by blast
  have sp: "(\<lambda>sp. clusterName ''a'' (vwVersion sp)) ` set (splits_of None ''a'') = {''a''}"
    by (simp add: splits_of_def lookupSpec_def noVersionSplit_def clusterName_def)
  let ?s = "sample_server\<lparr>srvReconciler := sample_reconciler\<lparr>lastSnapshot := Some snap\<rparr>\<rparr>"
  have last: "LastSnapshot (srvReconciler ?s) = Some snap" by (simp add: LastSnapshot_def)
  from debug_config_reports_snapshot [OF ref_lib_snapshots b _ _ _ last, of "''a''" sample_server "entry_writer None (sample_request ''GET'' [])"]
  show ?thesis unfolding ls sp Let_def using b by (auto simp: routes_ok_def)
qed

end
