(* ===== verification/Mesh_Watcher.thy ===== *)
theory Mesh_Watcher
  imports Mesh_Api
begin

text \<open>
  The Kubernetes watcher, \<open>cmd/k8s-watcher/main.go\<close>: the pass that brings the registrations of
  a service in line with the ready addresses behind it, and the loop that repeats it, first
  over any control plane it may talk to, and then connected to the HTTP API of this
  development.

  The Kubernetes client is a parameter: a pass gets the endpoints it reads, or an error.
  Requests go through \<open>Do\<close>, which stands for the HTTP client and the control plane behind it;
  \<open>marshal\<close> stands for \<open>json.Marshal\<close>.
\<close>

section \<open>Data\<close>

record EndpointAddress =
  IP :: string
  TargetRef :: "string option"

record watcher =
  wService :: string
  cpAddr :: string
  wPort :: int
  registered_ids :: "(string, bool) gomap"

datatype watcher_error = ErrEndpoints lib_error | ErrTransport lib_error | ErrUnexpectedStatus int

text \<open>Sending one request: method, URL and body, to an answer with a status or a transport error.\<close>

type_synonym 'cp http_do = "string \<Rightarrow> string \<Rightarrow> string \<Rightarrow> 'cp \<Rightarrow> 'cp \<times> (lib_error + int)"

type_synonym marshal = "string \<Rightarrow> string \<Rightarrow> string \<Rightarrow> int \<Rightarrow> string"

section \<open>Operations\<close>

definition instanceIDFor :: "EndpointAddress \<Rightarrow> string" where
  "instanceIDFor addr =
     (case TargetRef addr of
        Some name \<Rightarrow> if name \<noteq> [] then name else IP addr
      | None \<Rightarrow> IP addr)"

definition check_status :: "'cp \<times> (lib_error + int) \<Rightarrow> 'cp \<times> watcher_error option" where
  "check_status res =
     (case res of
        (cp, Inl err) \<Rightarrow> (cp, Some (ErrTransport err))
      | (cp, Inr status) \<Rightarrow> (cp, if status \<ge> 300 then Some (ErrUnexpectedStatus status) else None))"

definition post :: "'cp http_do \<Rightarrow> watcher \<Rightarrow> string \<Rightarrow> string \<Rightarrow> 'cp \<Rightarrow> 'cp \<times> watcher_error option" where
  "post Do w path body cp = check_status (Do ''POST'' (cpAddr w @ path) body cp)"

definition watcher_register ::
    "'cp http_do \<Rightarrow> marshal \<Rightarrow> watcher \<Rightarrow> string \<Rightarrow> string \<Rightarrow> 'cp \<Rightarrow> 'cp \<times> watcher_error option" where
  "watcher_register Do marshal w instanceID addr cp =
     post Do w ''/v1/services'' (marshal (wService w) instanceID addr (wPort w)) cp"

definition watcher_heartbeat ::
    "'cp http_do \<Rightarrow> watcher \<Rightarrow> string \<Rightarrow> 'cp \<Rightarrow> 'cp \<times> watcher_error option" where
  "watcher_heartbeat Do w instanceID cp =
     post Do w (''/v1/services/'' @ wService w @ ''/instances/'' @ instanceID @ ''/heartbeat'') [] cp"

definition watcher_deregister ::
    "'cp http_do \<Rightarrow> watcher \<Rightarrow> string \<Rightarrow> 'cp \<Rightarrow> 'cp \<times> watcher_error option" where
  "watcher_deregister Do w instanceID cp =
     check_status (Do ''DELETE'' (cpAddr w @ ''/v1/services/'' @ wService w @ ''/instances/'' @ instanceID) [] cp)"

fun current_loop :: "EndpointAddress list \<Rightarrow> (string, string) gomap \<Rightarrow> (string, string) gomap" where
  "current_loop [] current = current"
| "current_loop (addr # rest) current = current_loop rest (go_set (instanceIDFor addr) (IP addr) current)"

text \<open>The two loops over maps; \<open>register\<close>, \<open>heartbeat\<close> and \<open>deregister\<close> are the watcher's own calls.
  The second deletes only the entry it is at.\<close>

fun register_loop ::
    "(string \<Rightarrow> string \<Rightarrow> 'cp \<Rightarrow> 'cp \<times> watcher_error option) \<Rightarrow> (string \<Rightarrow> 'cp \<Rightarrow> 'cp \<times> watcher_error option)
      \<Rightarrow> (string \<times> string) list \<Rightarrow> (string, bool) gomap \<Rightarrow> 'cp \<Rightarrow> (string, bool) gomap \<times> 'cp" where
  "register_loop register heartbeat [] ids cp = (ids, cp)"
| "register_loop register heartbeat ((instanceID, addr) # rest) ids cp =
     (let (cp, known) =
            (if go_get ids instanceID = Some True
             then case heartbeat instanceID cp of (cp, err) \<Rightarrow> (cp, err = None)
             else (cp, False))
      in if known then register_loop register heartbeat rest ids cp
         else case register instanceID addr cp of
                (cp, Some err) \<Rightarrow> register_loop register heartbeat rest ids cp
              | (cp, None) \<Rightarrow> register_loop register heartbeat rest (go_set instanceID True ids) cp)"

fun deregister_loop ::
    "(string \<Rightarrow> 'cp \<Rightarrow> 'cp \<times> watcher_error option) \<Rightarrow> (string, string) gomap
      \<Rightarrow> string list \<Rightarrow> (string, bool) gomap \<Rightarrow> 'cp \<Rightarrow> (string, bool) gomap \<times> 'cp" where
  "deregister_loop deregister current [] ids cp = (ids, cp)"
| "deregister_loop deregister current (instanceID # rest) ids cp =
     (if go_get current instanceID = None
      then case deregister instanceID cp of
             (cp, Some err) \<Rightarrow> deregister_loop deregister current rest ids cp
           | (cp, None) \<Rightarrow> deregister_loop deregister current rest (go_delete instanceID ids) cp
      else deregister_loop deregister current rest ids cp)"

definition watcher_reconcile ::
    "'cp http_do \<Rightarrow> marshal \<Rightarrow> lib_error + EndpointAddress list list \<Rightarrow> watcher \<Rightarrow> 'cp
      \<Rightarrow> watcher \<times> 'cp \<times> watcher_error option" where
  "watcher_reconcile Do marshal ep w cp =
     (case ep of
        Inl err \<Rightarrow> (w, cp, Some (ErrEndpoints err))
      | Inr subsets \<Rightarrow>
          let current = current_loop (concat subsets) [];
              (ids, cp) = register_loop (watcher_register Do marshal w) (watcher_heartbeat Do w) current
                            (registered_ids w) cp;
              (ids, cp) = deregister_loop (watcher_deregister Do w) current (map fst ids) ids cp
          in (w\<lparr>registered_ids := ids\<rparr>, cp, None))"

text \<open>The polling loop of \<open>main\<close>, along the passes it has made so far. Each pass has its own \<open>Do\<close>, since the
  network and the control plane change between passes; errors are only logged.\<close>

definition watcher_New :: "string \<Rightarrow> string \<Rightarrow> int \<Rightarrow> watcher" where
  "watcher_New service controlPlaneAddr port =
     \<lparr>wService = service, cpAddr = controlPlaneAddr, wPort = port, registered_ids = []\<rparr>"

fun watcher_loop ::
    "marshal \<Rightarrow> ('cp http_do \<times> (lib_error + EndpointAddress list list)) list \<Rightarrow> watcher \<Rightarrow> 'cp \<Rightarrow> watcher \<times> 'cp" where
  "watcher_loop marshal [] w cp = (w, cp)"
| "watcher_loop marshal ((Do, ep) # rest) w cp =
     (case watcher_reconcile Do marshal ep w cp of (w, cp, err) \<Rightarrow> watcher_loop marshal rest w cp)"

section \<open>The map of registered instances\<close>

text \<open>Whatever the control plane answers, the map stays a map, and its keys come from the endpoints.\<close>

definition ids_within :: "(string \<Rightarrow> bool) \<Rightarrow> (string, bool) gomap \<Rightarrow> bool" where
  "ids_within P ids \<longleftrightarrow> go_ok ids \<and> (\<forall>i. go_get ids i \<noteq> None \<longrightarrow> P i)"

lemma ids_within_register:
  "register_loop register heartbeat es ids cp = (ids', cp') \<Longrightarrow> ids_within P ids \<Longrightarrow> \<forall>(i, a) \<in> set es. P i \<Longrightarrow>
   ids_within P ids'"
proof (induction es arbitrary: ids cp)
  case (Cons p es)
  obtain i a where p: "p = (i, a)" by fastforce
  obtain c1 e1 where hb: "heartbeat i cp = (c1, e1)" by fastforce
  define c where "c = (if go_get ids i = Some True then c1 else cp)"
  obtain c2 e2 where reg: "register i a c = (c2, e2)" by fastforce
  have set: "ids_within P (go_set i True ids)" using Cons.prems(2,3) p by (simp add: ids_within_def)
  have "\<exists>ids1 cp1. register_loop register heartbeat es ids1 cp1 = (ids', cp') \<and> (ids1 = ids \<or> ids1 = go_set i True ids)"
    using Cons.prems(1) hb reg unfolding p c_def by (cases e1; cases e2) (auto split: if_splits)
  with Cons.IH Cons.prems(2,3) set p show ?case by auto
qed simp

lemma ids_within_deregister:
  "deregister_loop deregister cur is ids cp = (ids', cp') \<Longrightarrow> ids_within P ids \<Longrightarrow> ids_within P ids'"
proof (induction deregister cur "is" ids cp arbitrary: ids' cp' rule: deregister_loop.induct)
  case (2 deregister cur i rest ids cp)
  have del: "ids_within P (go_delete i ids)" using 2(5) by (simp add: ids_within_def)
  show ?case using 2 del by (fastforce split: prod.splits option.splits if_splits)
qed simp

section \<open>The control plane as the watcher needs it\<close>

text \<open>The entry of a current instance after a pass: an instance that the watcher knows and the control
  plane has is refreshed, any other is registered anew.\<close>

definition pass_entry ::
    "(string, bool) gomap \<Rightarrow> string \<Rightarrow> Instance option \<Rightarrow> Instance \<Rightarrow> (Instance \<Rightarrow> Instance) \<Rightarrow> Instance" where
  "pass_entry ids i old new beat =
     (if go_get ids i = Some True then (case old of None \<Rightarrow> new | Some x \<Rightarrow> beat x) else new)"

text \<open>
  What a pass relies on of the control plane, for the instances of the watched service: \<open>find\<close>
  is what it has registered, \<open>rest\<close> all that does not belong to the service, \<open>good\<close> tells the IDs
  that travel well in a URL and \<open>plain\<close> the addresses that travel well in a body, and \<open>entry\<close>
  is the instance that a registration creates.
\<close>

locale watched_service =
  fixes inv :: "'cp \<Rightarrow> bool"
    and find :: "'cp \<Rightarrow> string \<Rightarrow> Instance option"
    and rest :: "'cp \<Rightarrow> 'rest"
    and good :: "string \<Rightarrow> bool"
    and plain :: "string \<Rightarrow> bool"
    and entry :: "string \<Rightarrow> string \<Rightarrow> Instance"
    and beat :: "Instance \<Rightarrow> Instance"
    and register :: "string \<Rightarrow> string \<Rightarrow> 'cp \<Rightarrow> 'cp \<times> watcher_error option"
    and heartbeat :: "string \<Rightarrow> 'cp \<Rightarrow> 'cp \<times> watcher_error option"
    and deregister :: "string \<Rightarrow> 'cp \<Rightarrow> 'cp \<times> watcher_error option"
  assumes register_ok: "inv c \<Longrightarrow> good i \<Longrightarrow> plain a \<Longrightarrow>
      \<exists>c'. register i a c = (c', None) \<and> inv c' \<and> rest c' = rest c \<and> find c' = (find c)(i \<mapsto> entry i a)"
    and heartbeat_ok: "inv c \<Longrightarrow> good i \<Longrightarrow>
      \<exists>c' err. heartbeat i c = (c', err) \<and> inv c' \<and> rest c' = rest c \<and> (err = None \<longleftrightarrow> find c i \<noteq> None)
        \<and> find c' = (find c)(i := map_option beat (find c i))"
    and deregister_ok: "inv c \<Longrightarrow> good i \<Longrightarrow>
      \<exists>c'. deregister i c = (c', None) \<and> inv c' \<and> rest c' = rest c \<and> find c' = (find c)(i := None)"
begin

definition refreshed :: "(string, bool) gomap \<Rightarrow> 'cp \<Rightarrow> string \<Rightarrow> string \<Rightarrow> Instance" where
  "refreshed ids c i a = pass_entry ids i (find c i) (entry i a) beat"

lemma register_step:
  assumes "inv c" and "good i" and "plain a"
  shows "\<exists>ids' c'. register_loop register heartbeat ((i, a) # es) ids c = register_loop register heartbeat es ids' c'
    \<and> inv c' \<and> rest c' = rest c \<and> find c' = (find c)(i \<mapsto> refreshed ids c i a)
    \<and> (\<forall>j. go_get ids' j = (if j = i then Some True else go_get ids j))
    \<and> (go_ok ids \<longrightarrow> go_ok ids')"
proof -
  obtain c1 err where hb: "heartbeat i c = (c1, err)" "inv c1" "rest c1 = rest c" "err = None \<longleftrightarrow> find c i \<noteq> None"
    "find c1 = (find c)(i := map_option beat (find c i))"
    using heartbeat_ok [OF assms(1,2)] by blast
  obtain c2 where r: "register i a c = (c2, None)" "inv c2" "rest c2 = rest c" "find c2 = (find c)(i \<mapsto> entry i a)"
    using register_ok [OF assms] by blast
  obtain c3 where r': "register i a c1 = (c3, None)" "inv c3" "rest c3 = rest c1" "find c3 = (find c1)(i \<mapsto> entry i a)"
    using register_ok [OF hb(2) assms(2,3)] by blast
  consider "go_get ids i \<noteq> Some True" | "go_get ids i = Some True" "find c i = None"
    | x where "go_get ids i = Some True" "find c i = Some x" by (cases "find c i") auto
  then show ?thesis
  proof cases
    case 1
    with r show ?thesis
      by (intro exI [of _ "go_set i True ids"] exI [of _ c2]) (auto simp: refreshed_def pass_entry_def)
  next
    case 2
    with hb r' show ?thesis
      by (intro exI [of _ "go_set i True ids"] exI [of _ c3]) (auto simp: refreshed_def pass_entry_def)
  next
    case 3
    with hb show ?thesis
      by (intro exI [of _ ids] exI [of _ c1]) (auto simp: refreshed_def pass_entry_def)
  qed
qed

lemma register_loop_spec:
  assumes "inv c" and "\<And>i a. (i, a) \<in> set es \<Longrightarrow> good i \<and> plain a" and "go_ok es"
  shows "\<exists>ids' c'. register_loop register heartbeat es ids c = (ids', c') \<and> inv c' \<and> rest c' = rest c
    \<and> find c' = (\<lambda>i. case go_get es i of None \<Rightarrow> find c i | Some a \<Rightarrow> Some (refreshed ids c i a))
    \<and> (\<forall>i. go_get ids' i = (if go_get es i = None then go_get ids i else Some True))
    \<and> (go_ok ids \<longrightarrow> go_ok ids')"
  using assms
proof (induction es arbitrary: ids c)
  case (Cons p es)
  obtain i a where p: "p = (i, a)" by fastforce
  obtain ids1 c1 where s: "register_loop register heartbeat (p # es) ids c = register_loop register heartbeat es ids1 c1"
    "inv c1" "rest c1 = rest c" "find c1 = (find c)(i \<mapsto> refreshed ids c i a)"
    "\<And>j. go_get ids1 j = (if j = i then Some True else go_get ids j)" "go_ok ids \<longrightarrow> go_ok ids1"
    using register_step [OF Cons.prems(1), of i a es ids] Cons.prems(2) [of i a] p by auto
  obtain ids' c' where r: "register_loop register heartbeat es ids1 c1 = (ids', c')" "inv c'" "rest c' = rest c1"
    "find c' = (\<lambda>j. case go_get es j of None \<Rightarrow> find c1 j | Some a \<Rightarrow> Some (refreshed ids1 c1 j a))"
    "\<And>j. go_get ids' j = (if go_get es j = None then go_get ids1 j else Some True)" "go_ok ids1 \<longrightarrow> go_ok ids'"
    using Cons.IH [OF s(2), of ids1] Cons.prems(2,3) p by fastforce
  have fresh: "go_get es i = None" using Cons.prems(3) p by (simp add: go_get_None_iff)
  have "refreshed ids1 c1 j b = refreshed ids c j b" if "j \<noteq> i" for j b
    using that by (simp add: refreshed_def pass_entry_def s(4,5))
  with fresh s r p show ?case
    by (intro exI [of _ ids'] exI [of _ c']) (auto simp: fun_eq_iff split: option.splits)
qed auto

lemma deregister_loop_spec:
  assumes "inv c" and "\<And>i. i \<in> set is \<Longrightarrow> good i"
  shows "\<exists>ids' c'. deregister_loop deregister cur is ids c = (ids', c') \<and> inv c' \<and> rest c' = rest c
    \<and> find c' = (\<lambda>i. if i \<in> set is \<and> go_get cur i = None then None else find c i)
    \<and> (\<forall>i. go_get ids' i = (if i \<in> set is \<and> go_get cur i = None then None else go_get ids i))
    \<and> (go_ok ids \<longrightarrow> go_ok ids')"
  using assms
proof (induction "is" arbitrary: ids c)
  case (Cons i js)
  obtain c1 where d: "deregister i c = (c1, None)" "inv c1" "rest c1 = rest c" "find c1 = (find c)(i := None)"
    using deregister_ok [OF Cons.prems(1)] Cons.prems(2) by (meson list.set_intros(1))
  show ?case
  proof (cases "go_get cur i = None")
    case True
    then show ?thesis
      using Cons.IH [OF d(2), of "go_delete i ids"] Cons.prems(2) d by (fastforce simp: fun_eq_iff)
  next
    case False
    then show ?thesis
      using Cons.IH [OF Cons.prems(1), of ids] Cons.prems(2) by (fastforce simp: fun_eq_iff)
  qed
qed auto

text \<open>A whole pass: the current instances are registered and refreshed, those the watcher had
  registered and that are no longer current are gone, and nothing else changes.\<close>

lemma pass_spec:
  assumes "inv c" and "go_ok ids" and "go_ok cur"
    and "\<And>i. go_get ids i \<noteq> None \<Longrightarrow> good i" and "\<And>i a. go_get cur i = Some a \<Longrightarrow> good i \<and> plain a"
    and "register_loop register heartbeat cur ids c = (ids1, c1)"
    and "deregister_loop deregister cur (map fst ids1) ids1 c1 = (ids2, c2)"
  shows "inv c2 \<and> go_ok ids2 \<and> rest c2 = rest c
    \<and> find c2 = (\<lambda>i. case go_get cur i of
         Some a \<Rightarrow> Some (pass_entry ids i (find c i) (entry i a) beat)
       | None \<Rightarrow> if go_get ids i = None then find c i else None)
    \<and> (\<forall>i. go_get ids2 i = (if go_get cur i = None then None else Some True))"
proof -
  have "good i \<and> plain a" if "(i, a) \<in> set cur" for i a
    using assms(5) [of i a] go_get_iff [OF assms(3), of i a] that by simp
  then have r: "inv c1" "rest c1 = rest c" "find c1 = (\<lambda>i. case go_get cur i of None \<Rightarrow> find c i | Some a \<Rightarrow> Some (refreshed ids c i a))"
    "\<And>i. go_get ids1 i = (if go_get cur i = None then go_get ids i else Some True)" "go_ok ids1"
    using register_loop_spec [OF assms(1) _ assms(3), of ids] assms(2,6) by auto
  have keys: "i \<in> set (map fst ids1) \<longleftrightarrow> go_get ids1 i \<noteq> None" for i
    by (simp add: go_get_None_iff)
  then have "good i" if "i \<in> set (map fst ids1)" for i
    using assms(4,5) [of i] that r(4) [of i] by (auto split: if_splits)
  then have "inv c2" "go_ok ids2" "rest c2 = rest c1"
    "find c2 = (\<lambda>i. if i \<in> set (map fst ids1) \<and> go_get cur i = None then None else find c1 i)"
    "\<And>i. go_get ids2 i = (if i \<in> set (map fst ids1) \<and> go_get cur i = None then None else go_get ids1 i)"
    using deregister_loop_spec [OF r(1), of "map fst ids1" cur ids1] assms(7) r(5) by auto
  then show ?thesis
    by (auto simp only: keys r(2,3,4) refreshed_def fun_eq_iff split: option.splits if_splits)
qed

end

section \<open>The watcher connected to the API\<close>

text \<open>The path of a URL in its segments, and the HTTP client connected to the control plane. This is the
  client for URLs that are sent as they are: paths without escapes, queries, fragments and
  dot segments. The names that make such paths are the \<open>url_name\<close>s below, to which the
  properties are restricted.\<close>

fun split_slash :: "string \<Rightarrow> string list" where
  "split_slash [] = [[]]"
| "split_slash (c # cs) =
     (if c = CHR ''/'' then [] # split_slash cs
      else case split_slash cs of [] \<Rightarrow> [[c]] | seg # segs \<Rightarrow> (c # seg) # segs)"

definition cp_Do ::
    "('any, 'snap) xds_lib \<Rightarrow> json_decoder \<Rightarrow> (endpoint \<Rightarrow> Request \<Rightarrow> statusRecorder \<Rightarrow> statusRecorder)
      \<Rightarrow> time \<Rightarrow> string \<Rightarrow> ('snap Server \<times> metrics) http_do" where
  "cp_Do lib json library now addr method url body = (\<lambda>(s, tr).
     let rq = \<lparr>Method = method, Segments = tl (split_slash (drop (length addr) url)), Query = [],
               CorrelationHeader = [], Body = body\<rparr>;
         (s, w, tr, ctx) = api_ServeHTTP lib json library None now now now rq s tr s
     in ((s, tr), Inr (final_status w)))"

definition watcher_request :: "watcher \<Rightarrow> string \<Rightarrow> string \<Rightarrow> registerServiceRequest" where
  "watcher_request w i a =
     \<lparr>rqServiceName = wService w, rqNamespace = [], rqInstanceID = i, rqAddress = a, rqPort = wPort w,
      rqProtocol = [], rqVersion = [], rqMetadata = None\<rparr>"

text \<open>A nonempty name of unreserved characters and colons, other than a dot segment.\<close>

definition url_chars :: string where
  "url_chars = ''ABCDEFGHIJKLMNOPQRSTUVWXYZabcdefghijklmnopqrstuvwxyz0123456789-._~:''"

definition url_name :: "string \<Rightarrow> bool" where
  "url_name n \<longleftrightarrow> n \<noteq> [] \<and> n \<noteq> ''.'' \<and> n \<noteq> ''..''
     \<and> list_all (\<lambda>c. c \<in> set url_chars) n"

definition ascii :: "string \<Rightarrow> bool" where
  "ascii n \<longleftrightarrow> list_all (\<lambda>c. (of_char c :: nat) < 128) n"

definition go_int :: "int \<Rightarrow> bool" where
  "go_int n \<longleftrightarrow> - (2 ^ 63) \<le> n \<and> n < 2 ^ 63"

lemma url_name_slash:
  assumes "url_name n"
  shows "n \<noteq> [] \<and> CHR ''/'' \<notin> set n"
proof -
  have "CHR ''/'' \<notin> set url_chars" by (simp add: url_chars_def)
  with assms show ?thesis unfolding url_name_def list_all_iff by blast
qed

lemma url_name_ascii:
  assumes "url_name n"
  shows "ascii n"
proof -
  have "ascii url_chars" by (simp add: url_chars_def ascii_def)
  with assms show ?thesis unfolding url_name_def ascii_def list_all_iff by blast
qed

text \<open>Decoding inverts encoding on the bodies that the watcher sends, when their texts are ASCII and the
  port is a Go \<open>int\<close>.\<close>

definition json_register :: "json_decoder \<Rightarrow> marshal \<Rightarrow> bool" where
  "json_register json marshal \<longleftrightarrow>
     (\<forall>w i a. ascii (wService w) \<and> ascii i \<and> ascii a \<and> go_int (wPort w) \<longrightarrow>
        decodeRegister json (marshal (wService w) i a (wPort w)) = Some (watcher_request w i a))"

definition cp_find :: "watcher \<Rightarrow> 'snap Server \<times> metrics \<Rightarrow> string \<Rightarrow> Instance option" where
  "cp_find w c = find_instance (srvRegistry (fst c)) (key ''default'' (wService w))"

text \<open>All that is not the watched service: the other service keys, and the server without its registry.\<close>

definition cp_rest :: "watcher \<Rightarrow> 'snap Server \<times> metrics \<Rightarrow> (string \<Rightarrow> string \<Rightarrow> Instance option) \<times> 'snap Server" where
  "cp_rest w c =
     ((find_instance (srvRegistry (fst c)))(key ''default'' (wService w) := \<lambda>_. None), (fst c)\<lparr>srvRegistry := New\<rparr>)"

lemma split_slash_simps [simp]:
  "CHR ''/'' \<notin> set a \<Longrightarrow> split_slash (a @ CHR ''/'' # b) = a # split_slash b"
  "CHR ''/'' \<notin> set a \<Longrightarrow> split_slash a = [a]"
  by (induction a) auto

lemma cp_Do_answer:
  assumes "expected_status json rq s = Some st"
    and "rq = \<lparr>Method = m, Segments = tl (split_slash path), Query = [], CorrelationHeader = [], Body = b\<rparr>"
  shows "\<exists>tr'. cp_Do lib json library now addr m (addr @ path) b (s, tr) =
    ((s\<lparr>srvRegistry := fold reg_step (registry_ops json now rq) (srvRegistry s),
        srvRoutes := fold store_step (route_ops json rq) (srvRoutes s)\<rparr>, tr'), Inr st)"
proof -
  obtain bs where "answered st bs (entry_writer None rq) (snd (mux_ServeHTTP lib json library now rq s s (entry_writer None rq)))"
    using mux_answered [OF entry_writer_fresh(1,2) assms(1)] by blast
  then show ?thesis
    by (simp add: cp_Do_def assms(2) [symmetric] api_eq mux_effect answered_def final_status_def)
qed

lemma registry_route_id: "s\<lparr>srvRegistry := r, srvRoutes := srvRoutes s\<rparr> = s\<lparr>srvRegistry := r\<rparr>"
  by simp

lemma cp_register:
  assumes "json_register json marshal" and "url_name (wService w)" and "go_int (wPort w)" and "url_name i" and "ascii a"
  shows "\<exists>tr'. watcher_register (cp_Do lib json library now (cpAddr w)) marshal w i a (s, tr) =
    ((s\<lparr>srvRegistry := reg_step (OpRegister now (request_instance (watcher_request w i a))) (srvRegistry s)\<rparr>, tr'), None)"
proof -
  let ?rq = "\<lparr>Method = ''POST'', Segments = tl (split_slash ''/v1/services''), Query = [], CorrelationHeader = [],
    Body = marshal (wService w) i a (wPort w)\<rparr>"
  have ep: "mux_match (Method ?rq) (Segments ?rq) = EpRegisterService"
    by (simp add: mux_match_def mux_patterns_def)
  have dec: "decodeRegister json (marshal (wService w) i a (wPort w)) = Some (watcher_request w i a)"
    using assms url_name_ascii by (simp add: json_register_def)
  have "expected_status json ?rq s = Some 201"
    unfolding expected_status_def ep using dec url_name_slash [OF assms(2)] url_name_slash [OF assms(4)]
    by (simp add: watcher_request_def Let_def)
  moreover have "registry_ops json now ?rq = [OpRegister now (request_instance (watcher_request w i a))]"
    "route_ops json ?rq = []"
    unfolding registry_ops_def route_ops_def ep using dec by simp_all
  ultimately show ?thesis
    using cp_Do_answer [of json ?rq s 201 "''POST''" "''/v1/services''" "marshal (wService w) i a (wPort w)" lib library now "cpAddr w" tr]
    by (auto simp: watcher_register_def post_def check_status_def)
qed

lemma cp_heartbeat:
  assumes "url_name (wService w)" and "url_name i"
  shows "\<exists>tr'. watcher_heartbeat (cp_Do lib json library now (cpAddr w)) w i (s, tr) =
    ((s\<lparr>srvRegistry := reg_step (OpHeartbeat now ''default'' (wService w) i) (srvRegistry s)\<rparr>, tr'),
     if cp_find w (s, tr) i = None then Some (ErrUnexpectedStatus 404) else None)"
proof -
  let ?path = "''/v1/services/'' @ wService w @ ''/instances/'' @ i @ ''/heartbeat''"
  let ?rq = "\<lparr>Method = ''POST'', Segments = tl (split_slash ?path), Query = [], CorrelationHeader = [], Body = []\<rparr>"
  have ep: "mux_match (Method ?rq) (Segments ?rq) = EpHeartbeat (wService w) i"
    using url_name_slash [OF assms(1)] url_name_slash [OF assms(2)] by (simp add: mux_match_def mux_patterns_def)
  have "expected_status json ?rq s = Some (if cp_find w (s, tr) i = None then 404 else 200)"
    unfolding expected_status_def ep
    by (simp add: query_Get_def namespaceOrDefault_def cp_find_def)
  moreover have "registry_ops json now ?rq = [OpHeartbeat now ''default'' (wService w) i]" "route_ops json ?rq = []"
    unfolding registry_ops_def route_ops_def ep by (simp_all add: query_Get_def namespaceOrDefault_def)
  ultimately show ?thesis
    using cp_Do_answer [of json ?rq s "if cp_find w (s, tr) i = None then 404 else 200" "''POST''" ?path "[]" lib library now "cpAddr w" tr]
    by (auto simp: watcher_heartbeat_def post_def check_status_def)
qed

lemma cp_deregister:
  assumes "url_name (wService w)" and "url_name i"
  shows "\<exists>tr'. watcher_deregister (cp_Do lib json library now (cpAddr w)) w i (s, tr) =
    ((s\<lparr>srvRegistry := reg_step (OpDeregister ''default'' (wService w) i) (srvRegistry s)\<rparr>, tr'), None)"
proof -
  let ?path = "''/v1/services/'' @ wService w @ ''/instances/'' @ i"
  let ?rq = "\<lparr>Method = ''DELETE'', Segments = tl (split_slash ?path), Query = [], CorrelationHeader = [], Body = []\<rparr>"
  have ep: "mux_match (Method ?rq) (Segments ?rq) = EpDeregisterInstance (wService w) i"
    using url_name_slash [OF assms(1)] url_name_slash [OF assms(2)] by (simp add: mux_match_def mux_patterns_def)
  have "expected_status json ?rq s = Some 204" unfolding expected_status_def ep by simp
  moreover have "registry_ops json now ?rq = [OpDeregister ''default'' (wService w) i]" "route_ops json ?rq = []"
    unfolding registry_ops_def route_ops_def ep by (simp_all add: query_Get_def namespaceOrDefault_def)
  ultimately show ?thesis
    using cp_Do_answer [of json ?rq s 204 "''DELETE''" ?path "[]" lib library now "cpAddr w" tr]
    by (auto simp: watcher_deregister_def check_status_def)
qed

definition watcher_entry :: "time \<Rightarrow> watcher \<Rightarrow> string \<Rightarrow> string \<Rightarrow> Instance" where
  "watcher_entry now w i a = registered now (request_instance (watcher_request w i a))"

definition beat_at :: "time \<Rightarrow> Instance \<Rightarrow> Instance" where
  "beat_at now x = x\<lparr>LastHeartbeat := now, Healthy := True\<rparr>"

text \<open>The API satisfies the contract.\<close>

lemma cp_rest_kept:
  assumes "\<And>k. k \<noteq> key ''default'' (wService w) \<Longrightarrow> find_instance r k = find_instance (srvRegistry s) k"
  shows "cp_rest w (s\<lparr>srvRegistry := r\<rparr>, tr') = cp_rest w (s, tr)"
  using assms by (auto simp: cp_rest_def fun_eq_iff)

lemma api_watched:
  assumes "json_register json marshal" and "url_name (wService w)" and "go_int (wPort w)"
  shows "watched_service (\<lambda>c. reg_inv (srvRegistry (fst c))) (cp_find w) (cp_rest w) url_name ascii
    (watcher_entry now w) (beat_at now)
    (watcher_register (cp_Do lib json library now (cpAddr w)) marshal w)
    (watcher_heartbeat (cp_Do lib json library now (cpAddr w)) w)
    (watcher_deregister (cp_Do lib json library now (cpAddr w)) w)"
proof (unfold_locales, goal_cases)
  case (1 c i a)
  obtain s tr where c: "c = (s, tr)" by fastforce
  have k: "key (Namespace (request_instance (watcher_request w i a))) (ServiceName (request_instance (watcher_request w i a)))
      = key ''default'' (wService w)"
    by (simp add: request_instance_def watcher_request_def namespaceOrDefault_def)
  have "cp_rest w (s\<lparr>srvRegistry := reg_step (OpRegister now (request_instance (watcher_request w i a))) (srvRegistry s)\<rparr>, tr')
      = cp_rest w (s, tr)" for tr'
    by (rule cp_rest_kept) (simp add: find_Register k fun_eq_iff)
  then show ?case
    using cp_register [OF assms 1(2,3), of lib library now s tr] 1 k url_name_slash [OF assms(2)] url_name_slash [OF 1(2)]
    by (auto simp: c cp_find_def fun_eq_iff find_Register watcher_entry_def request_instance_def
        watcher_request_def intro: inv_intros)
next
  case (2 c i)
  obtain s tr where c: "c = (s, tr)" by fastforce
  have "cp_rest w (s\<lparr>srvRegistry := reg_step (OpHeartbeat now ''default'' (wService w) i) (srvRegistry s)\<rparr>, tr')
      = cp_rest w (s, tr)" for tr'
    by (rule cp_rest_kept) (simp add: find_Heartbeat fun_eq_iff)
  then show ?case
    using cp_heartbeat [OF assms(2) 2(2), of lib json library now s tr] 2
    by (auto simp: c cp_find_def fun_eq_iff find_Heartbeat beat_at_def intro: inv_intros)
next
  case (3 c i)
  obtain s tr where c: "c = (s, tr)" by fastforce
  have "cp_rest w (s\<lparr>srvRegistry := reg_step (OpDeregister ''default'' (wService w) i) (srvRegistry s)\<rparr>, tr')
      = cp_rest w (s, tr)" for tr'
    by (rule cp_rest_kept) (simp add: find_Deregister fun_eq_iff)
  then show ?case
    using cp_deregister [OF assms(2) 3(2), of lib json library now s tr] 3
    by (auto simp: c cp_find_def fun_eq_iff find_Deregister intro: inv_intros)
qed

section \<open>A reference encoding\<close>

text \<open>An encoding of the registration bodies that decoding inverts: each character is marked, and
  each text ends with another mark.\<close>

definition enc :: "string \<Rightarrow> string" where
  "enc s = concat (map (\<lambda>c. [CHR ''x'', c]) s) @ ''e''"

fun dec :: "string \<Rightarrow> string \<times> string" where
  "dec (a # b # r) = (if a = CHR ''x'' then (let (s, t) = dec r in (b # s, t)) else ([], b # r))"
| "dec _ = ([], [])"

definition enc_int :: "int \<Rightarrow> string" where
  "enc_int p = (if p < 0 then CHR ''-'' # show_nat (nat (- p)) else CHR ''+'' # show_nat (nat p))"

definition dec_int :: "string \<Rightarrow> int" where
  "dec_int s = (case s of [] \<Rightarrow> 0 | c # ds \<Rightarrow> if c = CHR ''-'' then - int (read_nat ds) else int (read_nat ds))"

definition ref_marshal :: marshal where
  "ref_marshal svc i a p = enc svc @ enc i @ enc a @ enc_int p"

definition ref_json :: json_decoder where
  "ref_json =
     \<lparr>decodeRegister = (\<lambda>b.
        let (svc, b) = dec b; (i, b) = dec b; (a, b) = dec b
        in Some \<lparr>rqServiceName = svc, rqNamespace = [], rqInstanceID = i, rqAddress = a, rqPort = dec_int b,
                 rqProtocol = [], rqVersion = [], rqMetadata = None\<rparr>),
      decodeSpec = (\<lambda>_. None)\<rparr>"

lemma dec_enc [simp]: "dec (enc s @ t) = (s, t)"
proof (induction s)
  case Nil
  show ?case by (cases t) (simp_all add: enc_def)
next
  case (Cons c s)
  have "enc (c # s) @ t = CHR ''x'' # c # enc s @ t" by (simp add: enc_def)
  with Cons show ?case by simp
qed

lemma dec_int_enc [simp]: "dec_int (enc_int p) = p"
  by (simp add: dec_int_def enc_int_def)

lemma ref_json_register: "json_register ref_json ref_marshal"
  by (simp add: json_register_def ref_json_def ref_marshal_def watcher_request_def)

definition sample_watcher :: watcher where
  "sample_watcher =
     \<lparr>wService = ''backend-a'', cpAddr = ''http://control-plane:8080'', wPort = 9000, registered_ids = []\<rparr>"

interpretation api: watched_service "\<lambda>c. reg_inv (srvRegistry (fst c))" "cp_find sample_watcher" "cp_rest sample_watcher"
  url_name ascii "watcher_entry now sample_watcher" "beat_at now"
  "watcher_register (cp_Do lib ref_json library now (cpAddr sample_watcher)) ref_marshal sample_watcher"
  "watcher_heartbeat (cp_Do lib ref_json library now (cpAddr sample_watcher)) sample_watcher"
  "watcher_deregister (cp_Do lib ref_json library now (cpAddr sample_watcher)) sample_watcher"
  for lib :: "('any, 'snap) xds_lib" and library now
  by (rule api_watched [OF ref_json_register]) (simp_all add: sample_watcher_def url_name_def url_chars_def go_int_def)

section \<open>Properties\<close>

lemma current_loop_eq:
  "go_get (current_loop addrs cur) i =
     (case map_of (rev (map (\<lambda>a. (instanceIDFor a, IP a)) addrs)) i of None \<Rightarrow> go_get cur i | Some x \<Rightarrow> Some x)
   \<and> (go_ok cur \<longrightarrow> go_ok (current_loop addrs cur))"
  by (induction addrs cur rule: current_loop.induct) (auto simp: map_add_def split: option.splits)

definition current_address :: "EndpointAddress list \<Rightarrow> string \<Rightarrow> string option" where
  "current_address addrs i = map_of (rev (map (\<lambda>a. (instanceIDFor a, IP a)) addrs)) i"

lemma go_get_current: "go_get (current_loop addrs []) i = current_address addrs i"
  by (simp add: current_loop_eq current_address_def split: option.split)

definition endpoints_ok :: "lib_error + EndpointAddress list list \<Rightarrow> bool" where
  "endpoints_ok ep =
     (case ep of
        Inl err \<Rightarrow> True
      | Inr subsets \<Rightarrow> list_all (\<lambda>a. url_name (instanceIDFor a) \<and> ascii (IP a)) (concat subsets))"

lemma current_address_ok: "endpoints_ok (Inr subsets) \<Longrightarrow> current_address (concat subsets) i = Some a \<Longrightarrow> url_name i \<and> ascii a"
  by (force simp: endpoints_ok_def current_address_def list_all_iff dest: map_of_SomeD)

lemma pass_through_api:
  fixes lib :: "('any, 'snap) xds_lib"
  assumes "json_register json marshal" and "url_name (wService w)" and "go_int (wPort w)"
    and "reg_inv (srvRegistry s)" and "ids_within url_name (registered_ids w)" and "endpoints_ok (Inr subsets)"
    and "watcher_reconcile (cp_Do lib json library now (cpAddr w)) marshal (Inr subsets) w (s, tr) = (w', (s', tr'), err)"
  shows "err = None \<and> reg_inv (srvRegistry s')
    \<and> (\<forall>i. find_instance (srvRegistry s') (key ''default'' (wService w)) i =
         (case current_address (concat subsets) i of
            Some a \<Rightarrow> Some (pass_entry (registered_ids w) i
                (find_instance (srvRegistry s) (key ''default'' (wService w)) i) (watcher_entry now w i a) (beat_at now))
          | None \<Rightarrow> if go_get (registered_ids w) i = None
                    then find_instance (srvRegistry s) (key ''default'' (wService w)) i else None))
    \<and> (\<forall>i. go_get (registered_ids w') i = (if current_address (concat subsets) i = None then None else Some True))
    \<and> cp_rest w (s', tr') = cp_rest w (s, tr)"
proof -
  let ?Do = "cp_Do lib json library now (cpAddr w)" and ?cur = "current_loop (concat subsets) []"
  obtain ids1 c1 where r: "register_loop (watcher_register ?Do marshal w) (watcher_heartbeat ?Do w) ?cur (registered_ids w) (s, tr) = (ids1, c1)"
    by (rule prod.exhaust)
  obtain ids2 c2 where d: "deregister_loop (watcher_deregister ?Do w) ?cur (map fst ids1) ids1 c1 = (ids2, c2)"
    by (rule prod.exhaust)
  have res: "w' = w\<lparr>registered_ids := ids2\<rparr>" "c2 = (s', tr')" "err = None"
    using assms(7) r d by (auto simp: watcher_reconcile_def)
  have "go_ok ?cur" using current_loop_eq [of "concat subsets" "[]"] by simp
  then have "reg_inv (srvRegistry (fst c2)) \<and> go_ok ids2 \<and> cp_rest w c2 = cp_rest w (s, tr)
      \<and> cp_find w c2 = (\<lambda>i. case go_get ?cur i of
           Some a \<Rightarrow> Some (pass_entry (registered_ids w) i (cp_find w (s, tr) i) (watcher_entry now w i a) (beat_at now))
         | None \<Rightarrow> if go_get (registered_ids w) i = None then cp_find w (s, tr) i else None)
      \<and> (\<forall>i. go_get ids2 i = (if go_get ?cur i = None then None else Some True))"
    using assms(4,5) current_address_ok [OF assms(6)]
    by (intro watched_service.pass_spec [OF api_watched [OF assms(1-3)] _ _ _ _ _ r d])
      (simp_all add: ids_within_def go_get_current)
  then show ?thesis
    unfolding res cp_find_def fst_conv go_get_current fun_eq_iff by simp
qed

lemma watcher_reconcile_ids:
  assumes "watcher_reconcile Do marshal ep w cp = (w', cp', err)" and "endpoints_ok ep"
    and "ids_within url_name (registered_ids w)"
  shows "ids_within url_name (registered_ids w') \<and> wService w' = wService w \<and> wPort w' = wPort w"
proof (cases ep)
  case (Inr subsets)
  let ?cur = "current_loop (concat subsets) []"
  have ok: "go_ok ?cur" using current_loop_eq [of "concat subsets" "[]"] by simp
  have cur: "\<forall>(i, a) \<in> set ?cur. url_name i"
    using current_address_ok [of subsets] assms(2) Inr go_get_iff [OF ok] by (auto simp: go_get_current)
  obtain ids1 c1 where r: "register_loop (watcher_register Do marshal w) (watcher_heartbeat Do w) ?cur
      (registered_ids w) cp = (ids1, c1)" by (rule prod.exhaust)
  obtain ids2 c2 where d: "deregister_loop (watcher_deregister Do w) ?cur (map fst ids1) ids1 c1 = (ids2, c2)"
    by (rule prod.exhaust)
  have "w' = w\<lparr>registered_ids := ids2\<rparr>" using assms(1) Inr r d by (auto simp: watcher_reconcile_def)
  with ids_within_deregister [OF d ids_within_register [OF r assms(3) cur]] show ?thesis by simp
qed (use assms in \<open>auto simp: watcher_reconcile_def\<close>)

lemma watcher_loop_ids:
  assumes "watcher_loop marshal history w cp = (w', cp')" and "list_all (endpoints_ok \<circ> snd) history"
    and "ids_within url_name (registered_ids w)"
  shows "ids_within url_name (registered_ids w') \<and> wService w' = wService w \<and> wPort w' = wPort w"
  using assms
proof (induction history arbitrary: w cp)
  case (Cons p rest)
  obtain Do ep where p: "p = (Do, ep)" by fastforce
  obtain w1 cp1 err where pass: "watcher_reconcile Do marshal ep w cp = (w1, cp1, err)" by (rule prod_cases3)
  have "endpoints_ok ep" "list_all (endpoints_ok \<circ> snd) rest" "watcher_loop marshal rest w1 cp1 = (w', cp')"
    using Cons.prems(1,2) by (simp_all add: p pass comp_def)
  note ok = this
  have w1: "ids_within url_name (registered_ids w1)" "wService w1 = wService w" "wPort w1 = wPort w"
    using watcher_reconcile_ids [OF pass ok(1) Cons.prems(3)] by simp_all
  from Cons.IH [OF ok(3,2) w1(1)] show ?case unfolding w1(2,3) .
qed simp

text \<open>C18. Convergence of the watcher through the API: whatever passes it has made before, with whatever
  failures of Kubernetes, of the network or of the control plane, after one pass that reaches
  the API the control plane has every ready instance ID of the watched service registered and
  healthy, an ID that the watcher knew and the control plane had being refreshed in place,
  with the address it had, and any other being registered with its ready address; it has
  none that the watcher had registered and that is no longer ready; and the other instances
  of the service, the other services, the routes and the rest of the control plane are as
  before. The watcher then knows exactly the ready IDs. The names are nonempty and of
  unreserved URL characters, the addresses ASCII, and the port is a Go integer.\<close>

theorem watcher_converges:
  fixes lib :: "('any, 'snap) xds_lib"
  assumes "json_register json marshal" and "url_name svc" and "go_int port" and "reg_inv (srvRegistry s)"
    and "list_all (endpoints_ok \<circ> snd) history" and "endpoints_ok (Inr subsets)"
    and "watcher_loop marshal history (watcher_New svc addr port) cp = (w, cp')"
    and "watcher_reconcile (cp_Do lib json library now (cpAddr w)) marshal (Inr subsets) w (s, tr) = (w', (s', tr'), err)"
  shows "err = None \<and> reg_inv (srvRegistry s')
    \<and> (\<forall>i. find_instance (srvRegistry s') (key ''default'' svc) i =
         (case current_address (concat subsets) i of
            Some a \<Rightarrow> Some (pass_entry (registered_ids w) i
                (find_instance (srvRegistry s) (key ''default'' svc) i) (watcher_entry now w i a) (beat_at now))
          | None \<Rightarrow> if go_get (registered_ids w) i = None
                    then find_instance (srvRegistry s) (key ''default'' svc) i else None))
    \<and> (\<forall>i. go_get (registered_ids w') i = (if current_address (concat subsets) i = None then None else Some True))
    \<and> (\<forall>k. k \<noteq> key ''default'' svc \<longrightarrow> find_instance (srvRegistry s') k = find_instance (srvRegistry s) k)
    \<and> s' = s\<lparr>srvRegistry := srvRegistry s'\<rparr>"
proof -
  have "ids_within url_name (registered_ids (watcher_New svc addr port))"
    by (simp add: watcher_New_def ids_within_def go_get_def)
  then have ids: "ids_within url_name (registered_ids w)" and w: "wService w = svc" "wPort w = port"
    using watcher_loop_ids [OF assms(7,5)] by (simp_all add: watcher_New_def)
  have good: "url_name (wService w)" "go_int (wPort w)" using w assms(2,3) by simp_all
  note pass = pass_through_api [OF assms(1) good assms(4) ids assms(6,8), unfolded w(1)]
  then have rest: "cp_rest w (s', tr') = cp_rest w (s, tr)" by blast
  have "find_instance (srvRegistry s') k = find_instance (srvRegistry s) k" if "k \<noteq> key ''default'' svc" for k
    using arg_cong [OF rest, of "\<lambda>r. fst r k"] that by (simp add: cp_rest_def w(1))
  moreover have "s'\<lparr>srvRegistry := New\<rparr> = s\<lparr>srvRegistry := New\<rparr>"
    using arg_cong [OF rest, of snd] by (simp add: cp_rest_def)
  then have "s' = s\<lparr>srvRegistry := srvRegistry s'\<rparr>" by (cases s; cases s') simp
  ultimately show ?thesis using pass by blast
qed

definition sample_addresses :: "(string \<times> string) list \<Rightarrow> EndpointAddress list" where
  "sample_addresses ps = map (\<lambda>(name, ip). \<lparr>IP = ip, TargetRef = Some name\<rparr>) ps"

lemma current_address_sample:
  "current_address (sample_addresses [(''p1'', ip)]) i = (if i = ''p1'' then Some ip else None)"
  by (simp add: current_address_def sample_addresses_def instanceIDFor_def)

lemma endpoints_ok_sample: "endpoints_ok (Inr [sample_addresses [(''p1'', ip)]])"
  if "ascii ip" for ip
  using that by (simp add: endpoints_ok_def sample_addresses_def instanceIDFor_def url_name_def url_chars_def)

lemma sample_failed_pass:
  "watcher_loop ref_marshal [(\<lambda>_ _ _ cp. (cp, Inl ''timeout''), Inr [sample_addresses [(''p1'', ''10.1.0.1'')]])]
     (watcher_New ''backend-a'' (cpAddr sample_watcher) (wPort sample_watcher)) () = (sample_watcher, ())"
  by (simp add: sample_watcher_def sample_addresses_def instanceIDFor_def watcher_New_def watcher_reconcile_def
      watcher_register_def post_def check_status_def go_set_def go_get_def)

theorem watcher_converges_witness:
  "\<exists>w' s' tr'. watcher_reconcile (cp_Do ref_lib ref_json (\<lambda>_ _ w. w) 7 (cpAddr sample_watcher)) ref_marshal
       (Inr [sample_addresses [(''p1'', ''10.1.0.1'')]]) sample_watcher (sample_server, []) = (w', (s', tr'), None)
     \<and> find_instance (srvRegistry s') ''default/backend-a'' ''p1'' = Some (watcher_entry 7 sample_watcher ''p1'' ''10.1.0.1'')
     \<and> go_get (registered_ids w') ''p1'' = Some True"
proof -
  obtain w' s' tr' err where run:
    "watcher_reconcile (cp_Do ref_lib ref_json (\<lambda>_ _ w. w) 7 (cpAddr sample_watcher)) ref_marshal
       (Inr [sample_addresses [(''p1'', ''10.1.0.1'')]]) sample_watcher (sample_server, []) = (w', (s', tr'), err)"
    by (metis prod.exhaust)
  have "err = None \<and> find_instance (srvRegistry s') (key ''default'' (wService sample_watcher)) ''p1''
        = Some (watcher_entry 7 sample_watcher ''p1'' ''10.1.0.1'') \<and> go_get (registered_ids w') ''p1'' = Some True"
    using watcher_converges [OF ref_json_register _ _ _ _ _ sample_failed_pass run]
    by (simp add: endpoints_ok_sample ascii_def current_address_sample pass_entry_def sample_watcher_def sample_server_def
        url_name_def url_chars_def go_int_def reg_inv_New)
  with run show ?thesis by (auto simp: key_def sample_watcher_def)
qed



end
