(* ===== verification/Mesh_EndToEnd.thy ===== *)
theory Mesh_EndToEnd
  imports Mesh_Api
begin

text \<open>
  From the HTTP API to Envoy: what a request for a registration, a deregistration or a traffic
  split makes of the configuration that is served after the next reconciliation pass. The
  theorems run the handler chain of \<open>internal/api\<close>, the stores, the sweep, the builder and the
  publication one after the other; nothing else happens between the request and the end
  of the pass.
\<close>

section \<open>A pass over the state of the server\<close>

definition quiet_publish ::
    "('any, 'snap) xds_lib \<Rightarrow> ('ctx, 'snap, 'cache) set_snapshot \<Rightarrow> 'ctx \<Rightarrow> time \<Rightarrow> 'cache \<Rightarrow> 'snap Server
      \<Rightarrow> (InMemory \<times> 'cache \<times> 'snap Reconciler) \<times> reconcile_error option" where
  "quiet_publish lib SetSnapshot ctx t cache s =
     Reconcile lib SetSnapshot ctx
       (quiet_reads t (recStaleAfter (srvReconciler s)) (srvRegistry s) (Some (\<lambda>_. srvRoutes s)))
       (srvRegistry s, cache, srvReconciler s)"

text \<open>The libraries do what their documentation says: messages can be packed, snapshots are indexed
  by name, the consistency check is the documented one, and the cache accepts a snapshot
  and serves it.\<close>

definition xds_works ::
    "('any, 'snap) xds_lib \<Rightarrow> ('any \<Rightarrow> string option) \<Rightarrow> (string \<Rightarrow> bool) \<Rightarrow> ('ctx, 'snap, 'cache) set_snapshot
      \<Rightarrow> ('cache \<Rightarrow> string \<Rightarrow> 'snap option) \<Rightarrow> 'ctx \<Rightarrow> bool" where
  "xds_works lib rds_name valid SetSnapshot GetSnapshot ctx \<longleftrightarrow>
     lib_packs lib rds_name valid \<and> lib_snapshots lib \<and> lib_consistency lib rds_name
     \<and> cache_serves SetSnapshot GetSnapshot \<and> (\<forall>s c. snd (SetSnapshot ctx NodeID s c) = None)"

text \<open>Service names that the libraries accept and that cannot be confused with cluster names.\<close>

definition names_ok :: "(string \<Rightarrow> bool) \<Rightarrow> string set \<Rightarrow> bool" where
  "names_ok valid ns \<longleftrightarrow> (\<forall>n \<in> ns. valid n \<and> CHR '':'' \<notin> set n)"

text \<open>The instances of a service that a pass at time \<open>t\<close> gives to a split.\<close>

definition live_instances :: "InMemory \<Rightarrow> duration \<Rightarrow> time \<Rightarrow> string \<Rightarrow> string \<Rightarrow> Instance set" where
  "live_instances reg d t svc v =
     {i. find_instance reg (key xds_Namespace svc) (InstanceID i) = Some i \<and> Healthy i
         \<and> time_Sub t (LastHeartbeat i) \<le> 15 * Second \<and> (d \<le> 0 \<or> time_Sub t (LastHeartbeat i) \<le> d)
         \<and> (v = [] \<or> Version i = v)}"

text \<open>A snapshot gives a set of instances, and no other endpoint, to a split.\<close>

definition serves_split :: "('any, 'snap) xds_lib \<Rightarrow> 'snap \<Rightarrow> string \<Rightarrow> string \<Rightarrow> Instance set \<Rightarrow> bool" where
  "serves_split lib snap svc v I \<longleftrightarrow>
     (\<exists>xs. go_get (GetResources lib snap EndpointType) (clusterName svc v) =
          Some (ResEndpoint \<lparr>claClusterName = clusterName svc v, claEndpoints = [map lbEndpoint xs]\<rparr>)
        \<and> set xs = I)"

lemma serves_split_member:
  "serves_split lib snap svc v I \<Longrightarrow> i \<in> I \<Longrightarrow>
   \<exists>as. go_get (GetResources lib snap EndpointType) (clusterName svc v) =
       Some (ResEndpoint \<lparr>claClusterName = clusterName svc v, claEndpoints = [as]\<rparr>) \<and> lbEndpoint i \<in> set as"
  by (auto simp: serves_split_def)

text \<open>The action of a route does what a specification says.\<close>

definition routes_as :: "string \<Rightarrow> Spec \<Rightarrow> RouteAction \<Rightarrow> bool" where
  "routes_as svc spec a \<longleftrightarrow>
     raClusterSpecifier a =
       (case Splits spec of
          [sp] \<Rightarrow> RouteAction_Cluster (clusterName svc (vwVersion sp))
        | sps \<Rightarrow> RouteAction_WeightedClusters
            (map (\<lambda>sp. \<lparr>cwName = clusterName svc (vwVersion sp), cwWeight = Weight sp\<rparr>) sps))
     \<and> raTimeout a = (if TimeoutMs spec = 0 then None else Some (int (unat (TimeoutMs spec)) * Millisecond))
     \<and> (case raRetryPolicy a of
          None \<Rightarrow> RetryOn spec = []
        | Some rp \<Rightarrow> RetryOn spec \<noteq> [] \<and> rpRetryOn rp = RetryOn spec \<and> rpNumRetries rp = NumRetries spec
            \<and> 0 < unat (rpNumRetries rp))"

lemma routes_as_Service [simp]: "routes_as svc (spec\<lparr>Service := n\<rparr>) a = routes_as svc spec a"
  by (simp add: routes_as_def split: option.split)

lemma stored_route:
  assumes "routes_ok routes" and "lookupSpec routes svc = Some spec"
  obtains a where "service_route routes svc =
      \<lparr>rcName = svc @ ''-route'',
       rcVirtualHosts = [\<lparr>vhName = svc, vhDomains = [''*''], vhRoutes = [\<lparr>rtPrefix = ''/'', rtAction = a\<rparr>]\<rparr>]\<rparr>"
    "routes_as svc spec a"
  using service_route_spec [OF assms] unfolding routes_as_def by blast

lemma quiet_publish_serves:
  assumes "xds_works lib rds_name valid SetSnapshot GetSnapshot ctx"
    and "reg_inv (srvRegistry s)" and "store_inv (srvRoutes s)"
    and "names_ok valid (set (ListServices xds_Namespace (srvRegistry s)))"
  obtains reg' cache' rc' snap where
    "quiet_publish lib SetSnapshot ctx t cache s = ((reg', cache', rc'), None)" "GetSnapshot cache' NodeID = Some snap"
    "\<And>svc sp. svc \<in> set (ListServices xds_Namespace (srvRegistry s)) \<Longrightarrow>
       sp \<in> set (splits_of (Some (\<lambda>_. srvRoutes s)) svc) \<Longrightarrow>
       serves_split lib snap svc (vwVersion sp)
         (live_instances (srvRegistry s) (recStaleAfter (srvReconciler s)) t svc (vwVersion sp))"
    "\<And>svc. svc \<in> set (ListServices xds_Namespace (srvRegistry s)) \<Longrightarrow>
       go_get (GetResources lib snap RouteType) (svc @ ''-route'') =
         Some (ResRoute (service_route (Some (\<lambda>_. srvRoutes s)) svc))"
    "resource_names lib snap RouteType = (\<lambda>n. n @ ''-route'') ` set (ListServices xds_Namespace (srvRegistry s))"
proof -
  let ?routes = "Some (\<lambda>_. srvRoutes s)"
  let ?d = "recStaleAfter (srvReconciler s)"
  have works: "lib_packs lib rds_name valid" "lib_snapshots lib" "lib_consistency lib rds_name"
    "cache_serves SetSnapshot GetSnapshot" "\<forall>s c. snd (SetSnapshot ctx NodeID s c) = None"
    using assms(1) by (simp_all add: xds_works_def)
  have names: "\<forall>n \<in> set (ListServices xds_Namespace (srvRegistry s)). valid n"
    "\<And>n. n \<in> set (ListServices xds_Namespace (srvRegistry s)) \<Longrightarrow> CHR '':'' \<notin> set n"
    using assms(4) by (auto simp: names_ok_def)
  have ok: "routes_ok ?routes" using assms(3) by (simp add: routes_ok_def)
  from quiet_pass [OF works assms(2) names(1), of t "srvReconciler s" ?routes cache] obtain cache' rc' snap lns where
    run: "quiet_publish lib SetSnapshot ctx t cache s = ((fst (SweepStale t ?d (srvRegistry s)), cache', rc'), None)"
    and served: "GetSnapshot cache' NodeID = Some snap"
    and ix: "indexed lib snap (version_string (version (srvReconciler s) + 1))
        (snapshot_input (fst (SweepStale t ?d (srvRegistry s))) ?routes (still (fst (SweepStale t ?d (srvRegistry s))) t) lns)"
    unfolding quiet_publish_def by blast
  have svcs: "set (services_of (fst (SweepStale t ?d (srvRegistry s)))) = set (ListServices xds_Namespace (srvRegistry s))"
    by (simp add: services_of_def ListServices_SweepStale [OF assms(2)])
  have "resource_names lib snap RouteType = (\<lambda>n. n @ ''-route'') ` set (ListServices xds_Namespace (srvRegistry s))"
    by (simp add: indexed_names [OF ix] image_image svcs)
  with that [OF run served] quiet_endpoints [OF assms(2) ok names(2) ix] route_lookup [OF ix] svcs
  show ?thesis unfolding live_instances_def serves_split_def by blast
qed

section \<open>The state after a request\<close>

lemma register_request:
  assumes "Method rq = ''POST''" and "Segments rq = [''v1'', ''services'']"
    and "decodeRegister json (Body rq) = Some req" and "rqServiceName req \<noteq> []" and "rqInstanceID req \<noteq> []"
    and "api_ServeHTTP lib json library rnd t1 now t2 rq later tr s = (s', w, tr', ctx)"
  shows "s' = s\<lparr>srvRegistry := fst (Register now (request_instance req) (srvRegistry s))\<rparr>" and "final_status w = 201"
proof -
  have ep: "mux_match (Method rq) (Segments rq) = EpRegisterService"
    by (simp add: assms(1,2) mux_match_def mux_patterns_def)
  have "s' = fst (mux_ServeHTTP lib json library now rq later s (entry_writer rnd rq))"
    using assms(6) unfolding api_eq by simp
  then show "s' = s\<lparr>srvRegistry := fst (Register now (request_instance req) (srvRegistry s))\<rparr>"
    by (simp add: mux_ServeHTTP_def ep handleRegisterService_eq assms(3))
  have "w = recWriter (rec_Write (BodyStatus ''registered'') (rec_WriteHeader 201 (entry_writer rnd rq)))"
    using assms(6) unfolding api_eq by (simp add: mux_ServeHTTP_def ep handleRegisterService_eq assms(3-5))
  with answered_rules(4) [OF entry_writer_fresh(1,2), of 201 "BodyStatus ''registered''" rnd rq]
  show "final_status w = 201" by (simp add: answered_def final_status_def)
qed

lemma deregister_request:
  assumes "Method rq = ''DELETE''" and "Segments rq = [''v1'', ''services'', name, ''instances'', iid]"
    and "name \<noteq> []" and "iid \<noteq> []"
    and "api_ServeHTTP lib json library rnd t1 now t2 rq later tr s = (s', w, tr', ctx)"
  shows "s' = s\<lparr>srvRegistry := fst (Deregister (namespaceOrDefault (query_Get rq ''namespace'')) name iid (srvRegistry s))\<rparr>"
    and "final_status w = 204"
proof -
  have ep: "mux_match (Method rq) (Segments rq) = EpDeregisterInstance name iid"
    using assms(3,4) by (simp add: assms(1,2) mux_match_def mux_patterns_def)
  have "s' = fst (mux_ServeHTTP lib json library now rq later s (entry_writer rnd rq))"
    "w = recWriter (rec_WriteHeader 204 (entry_writer rnd rq))"
    using assms(5) unfolding api_eq by (simp_all add: mux_ServeHTTP_def ep handleDeregisterInstance_eq)
  then show "s' = s\<lparr>srvRegistry := fst (Deregister (namespaceOrDefault (query_Get rq ''namespace'')) name iid (srvRegistry s))\<rparr>"
    and "final_status w = 204"
    using answered_rules(3) [OF entry_writer_fresh(1,2), of 204 rnd rq]
    by (simp_all add: mux_ServeHTTP_def ep handleDeregisterInstance_eq answered_def final_status_def)
qed

lemma put_route_request:
  assumes "Method rq = ''PUT''" and "Segments rq = [''v1'', ''routes'', name]" and "name \<noteq> []"
    and "decodeSpec json (Body rq) = Some spec" and "Validate (spec\<lparr>Service := name\<rparr>) = None"
    and "api_ServeHTTP lib json library rnd t1 now t2 rq later tr s = (s', w, tr', ctx)"
  shows "s' = s\<lparr>srvRoutes := fst (Store_Set (spec\<lparr>Service := name\<rparr>) (srvRoutes s))\<rparr>" and "final_status w = 200"
proof -
  have ep: "mux_match (Method rq) (Segments rq) = EpPutRoute name"
    using assms(3) by (simp add: assms(1,2) mux_match_def mux_patterns_def)
  have "s' = fst (mux_ServeHTTP lib json library now rq later s (entry_writer rnd rq))"
    "w = recWriter (writeJSON (BodyStatus ''route updated'') (entry_writer rnd rq))"
    using assms(6) unfolding api_eq by (simp_all add: mux_ServeHTTP_def ep handlePutRoute_eq assms(4,5))
  then show "s' = s\<lparr>srvRoutes := fst (Store_Set (spec\<lparr>Service := name\<rparr>) (srvRoutes s))\<rparr>" and "final_status w = 200"
    using answered_rules(2) [OF entry_writer_fresh(1,2), of "BodyStatus ''route updated''" rnd rq]
    by (simp_all add: mux_ServeHTTP_def ep handlePutRoute_eq assms(4) answered_def final_status_def)
qed

lemma services_after_register:
  assumes "reg_inv r" and "ServiceName i \<noteq> []" and "InstanceID i \<noteq> []" and "Namespace i = ns"
  shows "set (ListServices ns (fst (Register now i r))) = insert (ServiceName i) (set (ListServices ns r))"
  using assms(2-4)
  by (auto simp: set_ListServices [OF assms(1)] set_ListServices [OF reg_inv_Register [OF assms(1)]]
      service_names_def find_Register)

lemma services_after_deregister:
  assumes "reg_inv r"
  shows "set (ListServices ns (fst (Deregister ns name iid r))) \<subseteq> set (ListServices ns r)"
  by (auto simp: set_ListServices [OF assms] set_ListServices [OF reg_inv_Deregister [OF assms]]
      service_names_def find_Deregister split: if_splits)

lemma live_after_register:
  assumes "ServiceName i \<noteq> []" and "InstanceID i \<noteq> []" and "Namespace i = xds_Namespace"
    and "time_Sub t now \<le> 15 * Second" and "d \<le> 0 \<or> time_Sub t now \<le> d" and "v = [] \<or> v = Version i"
  shows "registered now i \<in> live_instances (fst (Register now i r)) d t (ServiceName i) v"
  using assms by (auto simp: live_instances_def find_Register registered_def)

lemma live_after_deregister:
  "live_instances (fst (Deregister xds_Namespace name iid r)) d t svc v =
     {i \<in> live_instances r d t svc v. svc = name \<longrightarrow> InstanceID i \<noteq> iid}"
  by (auto simp: live_instances_def find_Deregister)

section \<open>Properties\<close>

text \<open>C1. A registration in the default namespace reaches Envoy, when the name of the service and those of
  the services already listed there are accepted by the libraries and contain no colon: the
  request is answered 201, the next pass succeeds, and, if this pass comes within both
  heartbeat bounds, the snapshot it serves has a route for the service and, in the cluster of
  every split that has the version of the instance or the empty version, its address and
  port.\<close>

theorem registration_reaches_envoy:
  fixes lib :: "('any, 'snap) xds_lib"
  assumes "xds_works lib rds_name valid SetSnapshot GetSnapshot ctx"
    and "reg_inv (srvRegistry s)" and "store_inv (srvRoutes s)"
    and "names_ok valid (insert (rqServiceName req) (set (ListServices xds_Namespace (srvRegistry s))))"
    and "Method rq = ''POST''" and "Segments rq = [''v1'', ''services'']"
    and "decodeRegister json (Body rq) = Some req" and "rqServiceName req \<noteq> []" and "rqInstanceID req \<noteq> []"
    and "namespaceOrDefault (rqNamespace req) = xds_Namespace"
    and "api_ServeHTTP lib json library rnd t1 now t2 rq later tr s = (s', w, tr', ctx')"
    and "time_Sub t now \<le> 15 * Second"
    and "recStaleAfter (srvReconciler s) \<le> 0 \<or> time_Sub t now \<le> recStaleAfter (srvReconciler s)"
  shows "final_status w = 201
    \<and> (\<exists>reg' cache' rc' snap.
         quiet_publish lib SetSnapshot ctx t cache s' = ((reg', cache', rc'), None)
       \<and> GetSnapshot cache' NodeID = Some snap
       \<and> rqServiceName req @ ''-route'' \<in> resource_names lib snap RouteType
       \<and> (\<forall>sp \<in> set (splits_of (Some (\<lambda>_. srvRoutes s)) (rqServiceName req)).
            vwVersion sp = [] \<or> vwVersion sp = rqVersion req \<longrightarrow>
            (\<exists>as. go_get (GetResources lib snap EndpointType) (clusterName (rqServiceName req) (vwVersion sp)) =
                 Some (ResEndpoint \<lparr>claClusterName = clusterName (rqServiceName req) (vwVersion sp), claEndpoints = [as]\<rparr>)
               \<and> \<lparr>saAddress = rqAddress req, saPortValue = word_of_int (rqPort req)\<rparr> \<in> set as)))"
proof -
  let ?i = "request_instance req"
  have i: "ServiceName ?i = rqServiceName req" "InstanceID ?i = rqInstanceID req" "Namespace ?i = xds_Namespace"
    "Version ?i = rqVersion req" "lbEndpoint (registered now ?i) = \<lparr>saAddress = rqAddress req, saPortValue = word_of_int (rqPort req)\<rparr>"
    using assms(10) by (simp_all add: request_instance_def lbEndpoint_def registered_def)
  note s' = register_request [OF assms(5-9,11)]
  have svcs: "set (ListServices xds_Namespace (srvRegistry s')) = insert (rqServiceName req) (set (ListServices xds_Namespace (srvRegistry s)))"
    using services_after_register [OF assms(2), of ?i xds_Namespace now] assms(8,9) by (simp add: s'(1) i)
  have inv: "reg_inv (srvRegistry s')" "store_inv (srvRoutes s')"
    "names_ok valid (set (ListServices xds_Namespace (srvRegistry s')))"
    using assms(2-4) svcs by (simp_all add: s'(1) reg_inv_Register)
  have live: "registered now ?i \<in> live_instances (srvRegistry s') (recStaleAfter (srvReconciler s')) t (rqServiceName req) v"
    if "v = [] \<or> v = rqVersion req" for v
    using live_after_register [of ?i t now "recStaleAfter (srvReconciler s)" v "srvRegistry s"] assms(8,9,12,13) that
    by (simp add: s'(1) i(1-4))
  have svc: "rqServiceName req \<in> set (ListServices xds_Namespace (srvRegistry s'))" using svcs by simp
  from quiet_publish_serves [OF assms(1) inv] obtain reg' cache' rc' snap where pass:
    "quiet_publish lib SetSnapshot ctx t cache s' = ((reg', cache', rc'), None)" "GetSnapshot cache' NodeID = Some snap"
    "\<And>sp. sp \<in> set (splits_of (Some (\<lambda>_. srvRoutes s')) (rqServiceName req)) \<Longrightarrow>
       serves_split lib snap (rqServiceName req) (vwVersion sp)
         (live_instances (srvRegistry s') (recStaleAfter (srvReconciler s')) t (rqServiceName req) (vwVersion sp))"
    "resource_names lib snap RouteType = (\<lambda>n. n @ ''-route'') ` set (ListServices xds_Namespace (srvRegistry s'))"
    using svc by metis
  have routes: "srvRoutes s' = srvRoutes s" by (simp add: s'(1))
  have "rqServiceName req @ ''-route'' \<in> resource_names lib snap RouteType" using pass(4) svc by simp
  with s'(2) pass(1,2) serves_split_member [OF pass(3) live] show ?thesis unfolding i(5) routes by blast
qed

lemma ref_xds_works: "xds_works ref_lib ref_rds_name (\<lambda>_. True) ref_SetSnapshot go_get ()"
  by (simp add: xds_works_def ref_lib_laws ref_cache_serves ref_SetSnapshot_def)

theorem registration_reaches_envoy_witness:
  "\<exists>s' w tr' ctx' reg' cache' rc' snap as.
     api_ServeHTTP ref_lib sample_json (\<lambda>_ _ w. w) None 5 5 5 (sample_request ''POST'' [''v1'', ''services''])
       sample_server [] sample_server = (s', w, tr', ctx')
   \<and> quiet_publish ref_lib ref_SetSnapshot () 6 [] s' = ((reg', cache', rc'), None)
   \<and> go_get cache' NodeID = Some snap
   \<and> go_get (GetResources ref_lib snap EndpointType) ''a'' = Some (ResEndpoint \<lparr>claClusterName = ''a'', claEndpoints = [as]\<rparr>)
   \<and> \<lparr>saAddress = ''10.0.0.1'', saPortValue = 9000\<rparr> \<in> set as"
proof -
  let ?rq = "sample_request ''POST'' [''v1'', ''services'']"
  obtain s' w tr' ctx' where run:
    "api_ServeHTTP ref_lib sample_json (\<lambda>_ _ w. w) None 5 5 5 ?rq sample_server [] sample_server = (s', w, tr', ctx')"
    by (metis prod.exhaust)
  obtain req where req: "decodeRegister sample_json (Body ?rq) = Some req" by (simp add: sample_json_def)
  then have rq: "rqServiceName req = ''a''" "rqInstanceID req = ''i1''" "rqNamespace req = []" "rqVersion req = []"
    "rqAddress req = ''10.0.0.1''" "rqPort req = 9000"
    by (auto simp: sample_json_def)
  have inv: "reg_inv (srvRegistry sample_server)" "store_inv (srvRoutes sample_server)"
    by (simp_all add: sample_server_def inv_intros)
  have s: "ListServices xds_Namespace (srvRegistry sample_server) = []"
    "recStaleAfter (srvReconciler sample_server) = 15 * Second"
    "splits_of (Some (\<lambda>_. srvRoutes sample_server)) ''a'' = [\<lparr>vwVersion = [], Weight = 100\<rparr>]"
    by (simp_all add: sample_server_def sample_reconciler_def reconciler_New_def splits_of_def lookupSpec_def
        Store_Get_def NewStore_def noVersionSplit_def ListServices_def New_def go_get_def)
  have t: "time_Sub 6 5 \<le> 15 * Second" by (simp add: time_Sub_def duration_defs)
  have "namespaceOrDefault (rqNamespace req) = xds_Namespace" by (simp add: rq namespaceOrDefault_def xds_Namespace_def)
  from registration_reaches_envoy [OF ref_xds_works inv _ _ _ req _ _ this run t, of "[]"] show ?thesis
    using run t by (auto simp: rq s names_ok_def sample_request_def clusterName_def)
qed

text \<open>C2. A deregistration in the default namespace reaches Envoy, when the names of the services listed there
  are accepted by the libraries and contain no colon: the request is answered 204, the next
  pass succeeds, and in the snapshot it serves every split of every listed service has exactly the instances that it
  would have had without the request, less the deregistered one. When it was the last
  instance of its service, the route of the service is withdrawn.\<close>

theorem deregistration_reaches_envoy:
  fixes lib :: "('any, 'snap) xds_lib"
  assumes "xds_works lib rds_name valid SetSnapshot GetSnapshot ctx"
    and "reg_inv (srvRegistry s)" and "store_inv (srvRoutes s)"
    and "names_ok valid (set (ListServices xds_Namespace (srvRegistry s)))"
    and "Method rq = ''DELETE''" and "Segments rq = [''v1'', ''services'', name, ''instances'', iid]"
    and "name \<noteq> []" and "iid \<noteq> []" and "namespaceOrDefault (query_Get rq ''namespace'') = xds_Namespace"
    and "api_ServeHTTP lib json library rnd t1 now t2 rq later tr s = (s', w, tr', ctx')"
  shows "final_status w = 204
    \<and> (\<exists>reg' cache' rc' snap.
         quiet_publish lib SetSnapshot ctx t cache s' = ((reg', cache', rc'), None)
       \<and> GetSnapshot cache' NodeID = Some snap
       \<and> (\<forall>svc \<in> set (ListServices xds_Namespace (srvRegistry s')). \<forall>sp \<in> set (splits_of (Some (\<lambda>_. srvRoutes s)) svc).
            serves_split lib snap svc (vwVersion sp)
              {i \<in> live_instances (srvRegistry s) (recStaleAfter (srvReconciler s)) t svc (vwVersion sp).
                 svc = name \<longrightarrow> InstanceID i \<noteq> iid})
       \<and> (name @ ''-route'' \<in> resource_names lib snap RouteType \<longleftrightarrow>
            (\<exists>j. j \<noteq> iid \<and> find_instance (srvRegistry s) (key xds_Namespace name) j \<noteq> None)))"
proof -
  note s' = deregister_request [OF assms(5-8,10), unfolded assms(9)]
  have inv: "reg_inv (srvRegistry s')" "store_inv (srvRoutes s')" using assms(2,3) by (simp_all add: s'(1) reg_inv_Deregister)
  have "names_ok valid (set (ListServices xds_Namespace (srvRegistry s')))"
    using assms(4) services_after_deregister [OF assms(2), of xds_Namespace name iid]
    by (simp add: s'(1) names_ok_def subset_iff)
  from quiet_publish_serves [OF assms(1) inv this] obtain reg' cache' rc' snap where pass:
    "quiet_publish lib SetSnapshot ctx t cache s' = ((reg', cache', rc'), None)" "GetSnapshot cache' NodeID = Some snap"
    "\<And>svc sp. svc \<in> set (ListServices xds_Namespace (srvRegistry s')) \<Longrightarrow>
       sp \<in> set (splits_of (Some (\<lambda>_. srvRoutes s')) svc) \<Longrightarrow> serves_split lib snap svc (vwVersion sp)
         (live_instances (srvRegistry s') (recStaleAfter (srvReconciler s')) t svc (vwVersion sp))"
    "resource_names lib snap RouteType = (\<lambda>n. n @ ''-route'') ` set (ListServices xds_Namespace (srvRegistry s'))"
    by metis
  have "name @ ''-route'' \<in> resource_names lib snap RouteType \<longleftrightarrow> name \<in> set (ListServices xds_Namespace (srvRegistry s'))"
    by (auto simp: pass(4))
  also have "\<dots> \<longleftrightarrow> (\<exists>j. j \<noteq> iid \<and> find_instance (srvRegistry s) (key xds_Namespace name) j \<noteq> None)"
    unfolding set_ListServices [OF inv(1)] service_names_def using assms(7) by (auto simp: s'(1) find_Deregister)
  finally show ?thesis
    using s'(2) pass(1-3) by (auto simp: s'(1) live_after_deregister)
qed

theorem deregistration_reaches_envoy_witness:
  "\<exists>s' w tr' ctx' reg' cache' rc' snap.
     api_ServeHTTP ref_lib sample_json (\<lambda>_ _ w. w) None 7 7 7
       (sample_request ''DELETE'' [''v1'', ''services'', ''a'', ''instances'', ''i1'']) sample_server []
       (sample_server\<lparr>srvRegistry := sample_registry [sample_instance ''default'' ''a'' ''i1'' []]\<rparr>) = (s', w, tr', ctx')
   \<and> final_status w = 204 \<and> quiet_publish ref_lib ref_SetSnapshot () 8 [] s' = ((reg', cache', rc'), None)
   \<and> go_get cache' NodeID = Some snap \<and> ''a-route'' \<notin> resource_names ref_lib snap RouteType"
proof -
  let ?rq = "sample_request ''DELETE'' [''v1'', ''services'', ''a'', ''instances'', ''i1'']"
  let ?s = "sample_server\<lparr>srvRegistry := sample_registry [sample_instance ''default'' ''a'' ''i1'' []]\<rparr>"
  obtain s' w tr' ctx' where run:
    "api_ServeHTTP ref_lib sample_json (\<lambda>_ _ w. w) None 7 7 7 ?rq sample_server [] ?s = (s', w, tr', ctx')"
    by (metis prod.exhaust)
  have inv: "reg_inv (srvRegistry ?s)" "store_inv (srvRoutes ?s)"
    by (simp_all add: reg_inv_sample sample_server_def inv_intros)
  have s: "ListServices xds_Namespace (srvRegistry ?s) = [''a'']"
    "\<And>j. j \<noteq> ''i1'' \<Longrightarrow> find_instance (srvRegistry ?s) (key xds_Namespace ''a'') j = None"
    by (simp_all add: build_eval)
  have "namespaceOrDefault (query_Get ?rq ''namespace'') = xds_Namespace"
    by (simp add: query_Get_def namespaceOrDefault_def sample_request_def xds_Namespace_def go_get_def)
  note ns = this
  have names: "names_ok (\<lambda>_. True) (set (ListServices xds_Namespace (srvRegistry ?s)))" unfolding s(1) by (simp add: names_ok_def)
  have rq: "Method ?rq = ''DELETE''" "Segments ?rq = [''v1'', ''services'', ''a'', ''instances'', ''i1'']"
    by (simp_all add: sample_request_def)
  from deregistration_reaches_envoy [OF ref_xds_works inv names rq _ _ ns run, of 8 "[]"]
  obtain reg' cache' rc' snap where "final_status w = 204"
    "quiet_publish ref_lib ref_SetSnapshot () 8 [] s' = ((reg', cache', rc'), None)" "go_get cache' NodeID = Some snap"
    "''a'' @ ''-route'' \<notin> resource_names ref_lib snap RouteType"
    using s(2) by auto
  with run show ?thesis unfolding append.simps by blast
qed

text \<open>C3. A traffic split reaches Envoy, for a service that has instances in the default namespace, when the
  names of the services listed there are accepted by the libraries and contain no colon: an
  accepted route is answered 200, the next pass succeeds, and the snapshot it serves routes
  the service as the request says: directly to the cluster of a single split, by weight to
  the clusters of several, with the timeout and the retries of the request; and behind each
  of these clusters are exactly the live instances of its version, or of all versions for
  the empty version.\<close>

theorem route_reaches_envoy:
  fixes lib :: "('any, 'snap) xds_lib"
  assumes "xds_works lib rds_name valid SetSnapshot GetSnapshot ctx"
    and "reg_inv (srvRegistry s)" and "store_inv (srvRoutes s)"
    and "names_ok valid (set (ListServices xds_Namespace (srvRegistry s)))"
    and "name \<in> set (ListServices xds_Namespace (srvRegistry s))"
    and "Method rq = ''PUT''" and "Segments rq = [''v1'', ''routes'', name]" and "name \<noteq> []"
    and "decodeSpec json (Body rq) = Some spec" and "Validate (spec\<lparr>Service := name\<rparr>) = None"
    and "api_ServeHTTP lib json library rnd t1 now t2 rq later tr s = (s', w, tr', ctx')"
  shows "final_status w = 200
    \<and> (\<exists>reg' cache' rc' snap a.
         quiet_publish lib SetSnapshot ctx t cache s' = ((reg', cache', rc'), None)
       \<and> GetSnapshot cache' NodeID = Some snap
       \<and> go_get (GetResources lib snap RouteType) (name @ ''-route'') = Some (ResRoute
           \<lparr>rcName = name @ ''-route'',
            rcVirtualHosts = [\<lparr>vhName = name, vhDomains = [''*''], vhRoutes = [\<lparr>rtPrefix = ''/'', rtAction = a\<rparr>]\<rparr>]\<rparr>)
       \<and> routes_as name spec a
       \<and> (\<forall>sp \<in> set (Splits spec). serves_split lib snap name (vwVersion sp)
            (live_instances (srvRegistry s) (recStaleAfter (srvReconciler s)) t name (vwVersion sp))))"
proof -
  let ?spec = "spec\<lparr>Service := name\<rparr>"
  note s' = put_route_request [OF assms(6-11)]
  have same: "srvRegistry s' = srvRegistry s" "srvReconciler s' = srvReconciler s" by (simp_all add: s'(1))
  have inv: "store_inv (srvRoutes s')" using store_inv_step [OF assms(3), of "OpSet ?spec"] by (simp add: s'(1))
  have spec: "lookupSpec (Some (\<lambda>_. srvRoutes s')) name = Some ?spec"
    using assms(10) by (simp add: lookupSpec_def s'(1) Store_Set_def Store_Get_def)
  then have splits: "splits_of (Some (\<lambda>_. srvRoutes s')) name = Splits spec" by (simp add: splits_of_def)
  have "routes_ok (Some (\<lambda>_. srvRoutes s'))" using inv by (simp add: routes_ok_def)
  from stored_route [OF this spec] obtain a where a: "service_route (Some (\<lambda>_. srvRoutes s')) name =
      \<lparr>rcName = name @ ''-route'',
       rcVirtualHosts = [\<lparr>vhName = name, vhDomains = [''*''], vhRoutes = [\<lparr>rtPrefix = ''/'', rtAction = a\<rparr>]\<rparr>]\<rparr>"
    "routes_as name ?spec a" .
  from quiet_publish_serves [where s = s' and t = t and cache = cache, OF assms(1) _ inv] obtain reg' cache' rc' snap where pass:
    "quiet_publish lib SetSnapshot ctx t cache s' = ((reg', cache', rc'), None)" "GetSnapshot cache' NodeID = Some snap"
    "\<And>sp. sp \<in> set (Splits spec) \<Longrightarrow> serves_split lib snap name (vwVersion sp)
         (live_instances (srvRegistry s) (recStaleAfter (srvReconciler s)) t name (vwVersion sp))"
    "go_get (GetResources lib snap RouteType) (name @ ''-route'') = Some (ResRoute (service_route (Some (\<lambda>_. srvRoutes s')) name))"
    using assms(2,4,5) unfolding same by (metis splits)
  show ?thesis using s'(2) pass(1-3) pass(4) [unfolded a(1)] a(2) [unfolded routes_as_Service] by blast
qed

theorem route_reaches_envoy_witness:
  "\<exists>s' w tr' ctx' reg' cache' rc' snap a.
     api_ServeHTTP ref_lib sample_json (\<lambda>_ _ w. w) None 7 7 7 (sample_request ''PUT'' [''v1'', ''routes'', ''a'']) sample_server []
       (sample_server\<lparr>srvRegistry := sample_registry [sample_instance ''default'' ''a'' ''i1'' []]\<rparr>) = (s', w, tr', ctx')
   \<and> quiet_publish ref_lib ref_SetSnapshot () 8 [] s' = ((reg', cache', rc'), None) \<and> go_get cache' NodeID = Some snap
   \<and> go_get (GetResources ref_lib snap RouteType) ''a-route'' = Some (ResRoute
       \<lparr>rcName = ''a-route'', rcVirtualHosts =
          [\<lparr>vhName = ''a'', vhDomains = [''*''], vhRoutes = [\<lparr>rtPrefix = ''/'', rtAction = a\<rparr>]\<rparr>]\<rparr>)
   \<and> raClusterSpecifier a = RouteAction_WeightedClusters
       [\<lparr>cwName = ''a::v1'', cwWeight = 90\<rparr>, \<lparr>cwName = ''a::v2'', cwWeight = 10\<rparr>]"
proof -
  let ?rq = "sample_request ''PUT'' [''v1'', ''routes'', ''a'']"
  let ?s = "sample_server\<lparr>srvRegistry := sample_registry [sample_instance ''default'' ''a'' ''i1'' []]\<rparr>"
  let ?spec = "sample_spec ''other'' [(''v1'', 90), (''v2'', 10)]"
  obtain s' w tr' ctx' where run:
    "api_ServeHTTP ref_lib sample_json (\<lambda>_ _ w. w) None 7 7 7 ?rq sample_server [] ?s = (s', w, tr', ctx')"
    by (metis prod.exhaust)
  have inv: "reg_inv (srvRegistry ?s)" "store_inv (srvRoutes ?s)"
    by (simp_all add: reg_inv_sample sample_server_def inv_intros)
  have s: "ListServices xds_Namespace (srvRegistry ?s) = [''a'']" by (simp add: build_eval)
  have spec: "decodeSpec sample_json (Body ?rq) = Some ?spec" "Validate (?spec\<lparr>Service := ''a''\<rparr>) = None"
    "Splits ?spec = [\<lparr>vwVersion = ''v1'', Weight = 90\<rparr>, \<lparr>vwVersion = ''v2'', Weight = 10\<rparr>]"
    by (simp_all add: sample_json_def Validate_def sample_spec_def)
  have names: "names_ok (\<lambda>_. True) (set (ListServices xds_Namespace (srvRegistry ?s)))" unfolding s by (simp add: names_ok_def)
  have a: "''a'' \<in> set (ListServices xds_Namespace (srvRegistry ?s))" unfolding s by simp
  have rq: "Method ?rq = ''PUT''" "Segments ?rq = [''v1'', ''routes'', ''a'']" by (simp_all add: sample_request_def)
  have "clusterName ''a'' ''v1'' = ''a::v1''" "clusterName ''a'' ''v2'' = ''a::v2''" "''a'' @ ''-route'' = ''a-route''"
    by (simp_all add: clusterName_def)
  with route_reaches_envoy [OF ref_xds_works inv names a rq _ spec(1,2) run, of 8 "[]"] run show ?thesis
    unfolding spec(3) routes_as_def by fastforce
qed

end
