(* ===== verification/Mesh_ControlPlane.thy ===== *)
theory Mesh_ControlPlane
  imports Mesh_Api
begin

text \<open>
  The assembled control plane, \<open>internal/controlplane/controlplane.go\<close>: \<open>New\<close> wires the stores,
  the reconciler, the tracker and the API together, and at run time HTTP requests, xDS stream
  callbacks and reconciliation passes interleave on the shared state.

  A pass is not atomic. It is cut into its beginning, up to and including the sweep, and its
  end; requests are served in between, and each read of the end may meet any of the states
  since the sweep.
\<close>

section \<open>A pass in two halves\<close>

definition Reconcile_begin :: "time \<Rightarrow> InMemory \<times> 'snap Reconciler \<Rightarrow> InMemory \<times> 'snap Reconciler" where
  "Reconcile_begin now = (\<lambda>(reg, rc).
     let rc = rc\<lparr>attempts := attempts rc + 1\<rparr>;
         rc = metric [ReconciliationAttempts_Inc] rc;
         (reg, transitioned) = SweepStale now (recStaleAfter rc) reg;
         rc = (if length transitioned > 0
               then metric [StaleInstancesTransitioned_Add (int (length transitioned))] rc else rc)
     in (reg, rc\<lparr>version := version rc + 1\<rparr>))"

definition Reconcile_end ::
    "('any, 'snap) xds_lib \<Rightarrow> ('ctx, 'snap, 'cache) set_snapshot \<Rightarrow> 'ctx \<Rightarrow> pass_reads
      \<Rightarrow> 'cache \<times> 'snap Reconciler \<Rightarrow> ('cache \<times> 'snap Reconciler) \<times> reconcile_error option" where
  "Reconcile_end lib SetSnapshot ctx reads = (\<lambda>(cache, rc).
     case BuildSnapshot lib (listRegistry reads) (routeReads reads) (splitReads reads) (version_string (version rc)) of
       Inl err \<Rightarrow> ((cache, observe_duration reads (record_failure rc)), Some (ErrBuild err))
     | Inr snap \<Rightarrow>
         (case SetSnapshot ctx NodeID snap cache of
            (cache, Some err) \<Rightarrow> ((cache, observe_duration reads (record_failure rc)), Some (ErrPublish err))
          | (cache, None) \<Rightarrow>
              let rc = rc\<lparr>lastSnapshot := Some snap\<rparr>;
                  rc = metric [XDSUpdatesTotal_Inc, ConfigVersion_Set (version rc),
                         ServicesTotal_Set (int (length (ListServices xds_Namespace (servicesRegistry reads)))),
                         EndpointsTotal_Set (countEndpoints (countRegistry reads) (countReads reads))] rc
              in ((cache, observe_duration reads rc), None)))"

text \<open>Run one after the other, the halves are the pass.\<close>

lemma Reconcile_begin_eq:
  "Reconcile_begin (sweepTime reads) (reg, rc) = (swept reads rc reg, begun reads reg rc)"
proof -
  obtain reg' tr where sw: "SweepStale (sweepTime reads) (recStaleAfter rc) reg = (reg', tr)" by fastforce
  show ?thesis
    unfolding begun_def swept_def sw snd_conv fst_conv
    by (cases rc; cases "recMetrics rc") (use sw in \<open>auto simp: Reconcile_begin_def metric_def Let_def\<close>)
qed

lemma Reconcile_halves:
  "Reconcile lib SetSnapshot ctx reads (reg, cache, rc) =
     (let (reg, rc) = Reconcile_begin (sweepTime reads) (reg, rc);
          ((cache, rc), err) = Reconcile_end lib SetSnapshot ctx reads (cache, rc)
      in ((reg, cache, rc), err))"
  unfolding Reconcile_eq Reconcile_begin_eq Let_def prod.case Reconcile_end_def pass_build_def published_def
  by (simp split: sum.split prod.split option.split)

section \<open>The state and its steps\<close>

text \<open>While a pass is under way, \<open>Passing\<close> keeps the registries and the route stores since its sweep.
  \<open>seen\<close> is the history of the registry.\<close>

datatype phase = Idle | Passing "InMemory list" "Store list"

record ('snap, 'cache) ControlPlane =
  server :: "'snap Server"
  snapshotCache :: 'cache
  cpPhase :: phase
  begunPasses :: nat
  seen :: "InMemory list"

definition controlplane_New :: "Config \<Rightarrow> 'cache \<Rightarrow> ('snap, 'cache) ControlPlane" where
  "controlplane_New cfg cache =
     \<lparr>server = \<lparr>srvReady = False, srvRegistry = New, srvRoutes = NewStore,
                srvReconciler = reconciler_New (StaleAfter cfg) (Some []), srvEnvoys = control_plane_tracker\<rparr>,
      snapshotCache = cache, cpPhase = Idle, begunPasses = 0, seen = [New]\<rparr>"

definition note_state :: "'snap Server \<Rightarrow> phase \<Rightarrow> phase" where
  "note_state s ph =
     (case ph of Idle \<Rightarrow> Idle | Passing rs sts \<Rightarrow> Passing (srvRegistry s # rs) (srvRoutes s # sts))"

definition reads_from :: "InMemory list \<Rightarrow> Store list \<Rightarrow> pass_reads \<Rightarrow> bool" where
  "reads_from rs sts reads \<longleftrightarrow>
     listRegistry reads \<in> set rs \<and> (\<forall>svc v. fst (splitReads reads svc v) \<in> set rs)
     \<and> (\<exists>st. routeReads reads = Some st \<and> (\<forall>svc. st svc \<in> set sts))
     \<and> servicesRegistry reads \<in> set rs \<and> countRegistry reads \<in> set rs \<and> (\<forall>svc. countReads reads svc \<in> set rs)"

inductive cp_step ::
    "('any, 'snap) xds_lib \<Rightarrow> ('ctx, 'snap, 'cache) set_snapshot \<Rightarrow> json_decoder
      \<Rightarrow> ('snap, 'cache) ControlPlane \<Rightarrow> ('snap, 'cache) ControlPlane \<Rightarrow> bool"
  for lib SetSnapshot json where
  cp_request:
    "api_ServeHTTP lib json library rnd t1 now t2 rq later tr (server c) = (s, w, tr', ctx') \<Longrightarrow>
     cp_step lib SetSnapshot json c
       (c\<lparr>server := s, cpPhase := note_state s (cpPhase c), seen := srvRegistry s # seen c\<rparr>)"
| cp_stream:
    "stream_step ev (srvEnvoys (server c), tr) = (t, tr') \<Longrightarrow>
     cp_step lib SetSnapshot json c (c\<lparr>server := (server c)\<lparr>srvEnvoys := t\<rparr>\<rparr>)"
| cp_ready:
    "cp_step lib SetSnapshot json c (c\<lparr>server := SetReady b (server c)\<rparr>)"
| cp_begin:
    "cpPhase c = Idle \<Longrightarrow>
     Reconcile_begin now (srvRegistry (server c), srvReconciler (server c)) = (reg, rc) \<Longrightarrow>
     cp_step lib SetSnapshot json c
       (c\<lparr>server := (server c)\<lparr>srvRegistry := reg, srvReconciler := rc\<rparr>,
          cpPhase := Passing [reg] [srvRoutes (server c)], begunPasses := Suc (begunPasses c), seen := reg # seen c\<rparr>)"
| cp_end:
    "cpPhase c = Passing rs sts \<Longrightarrow> reads_from rs sts reads \<Longrightarrow>
     Reconcile_end lib SetSnapshot ctx reads (snapshotCache c, srvReconciler (server c)) = ((cache, rc), err) \<Longrightarrow>
     cp_step lib SetSnapshot json c
       (c\<lparr>server := (server c)\<lparr>srvReconciler := rc\<rparr>, snapshotCache := cache, cpPhase := Idle\<rparr>)"

inductive_cases cp_stepE: "cp_step lib SetSnapshot json c c'"

inductive cp_reachable ::
    "('any, 'snap) xds_lib \<Rightarrow> ('ctx, 'snap, 'cache) set_snapshot \<Rightarrow> json_decoder
      \<Rightarrow> ('snap, 'cache) ControlPlane \<Rightarrow> bool"
  for lib SetSnapshot json where
  cr_init: "cp_reachable lib SetSnapshot json (controlplane_New cfg cache)"
| cr_step: "cp_reachable lib SetSnapshot json c \<Longrightarrow> cp_step lib SetSnapshot json c c' \<Longrightarrow>
    cp_reachable lib SetSnapshot json c'"

section \<open>The invariant\<close>

text \<open>A snapshot that Envoy may be given: consistent, with routes to its own clusters only, and with
  endpoints that were registered and healthy in some past state of the registry.\<close>

definition was_live :: "InMemory list \<Rightarrow> SocketAddress \<Rightarrow> bool" where
  "was_live rs a \<longleftrightarrow>
     (\<exists>r \<in> set rs. \<exists>k i. find_instance r k (InstanceID i) = Some i \<and> Healthy i \<and> a = lbEndpoint i)"

definition snapshot_sound :: "('any, 'snap) xds_lib \<Rightarrow> InMemory list \<Rightarrow> 'snap \<Rightarrow> bool" where
  "snapshot_sound lib rs s \<longleftrightarrow>
     Consistent lib s = None
     \<and> (\<forall>n rc. (n, ResRoute rc) \<in> set (GetResources lib s RouteType) \<longrightarrow>
          referenced_clusters rc \<noteq> {} \<and> referenced_clusters rc \<subseteq> resource_names lib s ClusterType)
     \<and> (\<forall>n e. (n, ResEndpoint e) \<in> set (GetResources lib s EndpointType) \<longrightarrow>
          list_all (was_live rs) (concat (claEndpoints e)))"

definition cp_inv :: "('any, 'snap) xds_lib \<Rightarrow> ('snap, 'cache) ControlPlane \<Rightarrow> bool" where
  "cp_inv lib c \<longleftrightarrow>
     store_inv (srvRoutes (server c)) \<and> list_all reg_inv (seen c) \<and> srvRegistry (server c) \<in> set (seen c)
     \<and> (case cpPhase c of
          Idle \<Rightarrow> rec_inv lib (begunPasses c) (srvReconciler (server c))
        | Passing rs sts \<Rightarrow> set rs \<subseteq> set (seen c) \<and> list_all store_inv sts
            \<and> (\<exists>reads reg rc n. begunPasses c = Suc n \<and> rec_inv lib n rc
                 \<and> srvReconciler (server c) = begun reads reg rc))
     \<and> (case lastSnapshot (srvReconciler (server c)) of None \<Rightarrow> True | Some s \<Rightarrow> snapshot_sound lib (seen c) s)"

lemma was_live_mono: "was_live rs a \<Longrightarrow> set rs \<subseteq> set rs' \<Longrightarrow> was_live rs' a"
  by (auto simp: was_live_def)

lemma snapshot_sound_mono:
  "snapshot_sound lib rs s \<Longrightarrow> set rs \<subseteq> set rs' \<Longrightarrow> snapshot_sound lib rs' s"
  unfolding snapshot_sound_def list_all_iff using was_live_mono by blast

lemma split_instances_live:
  assumes "reg_inv (fst (obs svc v))" and "fst (obs svc v) \<in> set rs"
    and "a \<in> set (map lbEndpoint (split_instances obs svc v))"
  shows "was_live rs a"
  using assms by (auto simp: was_live_def set_split_instances)

lemma built_snapshot_sound:
  assumes "lib_snapshots lib" and "BuildSnapshot lib r routes obs v = Inr s" and "routes_ok routes"
    and "\<And>svc v. fst (obs svc v) \<in> set rs" and "list_all reg_inv rs"
  shows "snapshot_sound lib rs s"
proof -
  obtain lns where ix: "indexed lib s v (snapshot_input r routes obs lns)"
    using indexed_build [OF assms(1,2)] by blast
  have "Consistent lib s = None" using assms(2) by (auto simp: BuildSnapshot_Inr)
  moreover have "was_live rs a"
    if mem: "(n, ResEndpoint e) \<in> set (GetResources lib s EndpointType)" and a: "a \<in> set (concat (claEndpoints e))" for n e a
  proof -
    have "e \<in> set (built_endpoints r routes obs)" using indexed_mem(1) [OF ix mem] by auto
    then obtain svc sp where "svc \<in> set (services_of r)" "sp \<in> set (splits_of routes svc)" "e = buildClusterLoadAssignment (clusterName svc (vwVersion sp)) (split_instances obs svc (vwVersion sp))"
      by (auto simp: built_endpoints_def service_endpoints_def)
    with a have "a \<in> set (map lbEndpoint (split_instances obs svc (vwVersion sp)))"
      by (simp add: buildClusterLoadAssignment_def)
    with assms(4,5) show ?thesis by (intro split_instances_live) (auto simp: list_all_iff)
  qed
  ultimately show ?thesis
    using built_routes_closed [OF assms(1-3)] by (auto simp: snapshot_sound_def list_all_iff)
qed

lemma api_server:
  "api_ServeHTTP lib json library rnd t1 now t2 rq later tr s = (s', w, tr', ctx) \<Longrightarrow>
   s' = s\<lparr>srvRegistry := fold reg_step (registry_ops json now rq) (srvRegistry s),
          srvRoutes := fold store_step (route_ops json rq) (srvRoutes s)\<rparr>"
  using mux_effect by (auto simp: api_eq)

lemma cp_inv_New: "cp_inv lib (controlplane_New cfg cache)"
  by (simp add: cp_inv_def controlplane_New_def inv_intros) (simp add: reconciler_New_def)

lemma cp_inv_request:
  assumes "cp_inv lib c" and "srvReconciler s = srvReconciler (server c)"
    and "reg_inv (srvRegistry s)" and "store_inv (srvRoutes s)"
  shows "cp_inv lib (c\<lparr>server := s, cpPhase := note_state s (cpPhase c), seen := srvRegistry s # seen c\<rparr>)"
proof -
  have sub: "set (seen c) \<subseteq> set (srvRegistry s # seen c)" by auto
  show ?thesis
    using assms snapshot_sound_mono [OF _ sub]
    by (auto simp: cp_inv_def note_state_def split: phase.splits option.splits)
qed

lemma cp_inv_begin:
  assumes "cp_inv lib c" and "cpPhase c = Idle"
    and "Reconcile_begin now (srvRegistry (server c), srvReconciler (server c)) = (reg, rc)"
  shows "cp_inv lib (c\<lparr>server := (server c)\<lparr>srvRegistry := reg, srvReconciler := rc\<rparr>,
      cpPhase := Passing [reg] [srvRoutes (server c)], begunPasses := Suc (begunPasses c), seen := reg # seen c\<rparr>)"
proof -
  define reads where "reads = \<lparr>startTime = now, sweepTime = now, endTime = now, listRegistry = reg,
    splitReads = still reg now, routeReads = None, servicesRegistry = reg, countRegistry = reg, countReads = (\<lambda>_. reg)\<rparr>"
  have eq: "reg = swept reads (srvReconciler (server c)) (srvRegistry (server c))"
    "rc = begun reads (srvRegistry (server c)) (srvReconciler (server c))"
    using assms(3) Reconcile_begin_eq [of reads "srvRegistry (server c)" "srvReconciler (server c)"]
    by (simp_all add: reads_def)
  have "reg_inv (srvRegistry (server c))" using assms(1) by (auto simp: cp_inv_def list_all_iff)
  then have "reg_inv reg" unfolding eq(1) swept_def by (rule reg_inv_SweepStale)
  moreover have "set (seen c) \<subseteq> set (reg # seen c)" by auto
  moreover have "lastSnapshot rc = lastSnapshot (srvReconciler (server c))" by (simp add: eq(2))
  ultimately show ?thesis
    using assms(1,2) snapshot_sound_mono [of lib "seen c" _ "reg # seen c"] eq(2)
    by (auto simp: cp_inv_def split: option.splits)
qed

lemma Reconcile_end_cases:
  assumes "Reconcile_end lib SetSnapshot ctx reads (cache, rc) = ((cache', rc'), err)"
  obtains (failure) "rc' = observe_duration reads (record_failure rc)"
  | (success) s where "BuildSnapshot lib (listRegistry reads) (routeReads reads) (splitReads reads)
        (version_string (version rc)) = Inr s" "rc' = observe_duration reads (published reads s rc)"
  using assms by (auto simp: Reconcile_end_def published_def Let_def split: sum.splits prod.splits option.splits)

lemma cp_inv_end:
  assumes lib: "lib_snapshots lib" and inv: "cp_inv lib c" and ph: "cpPhase c = Passing rs sts"
    and reads: "reads_from rs sts reads"
    and fin: "Reconcile_end lib SetSnapshot ctx reads (snapshotCache c, srvReconciler (server c)) = ((cache, rc), err)"
  shows "cp_inv lib (c\<lparr>server := (server c)\<lparr>srvReconciler := rc\<rparr>, snapshotCache := cache, cpPhase := Idle\<rparr>)"
proof -
  obtain breads reg rc0 n where n: "begunPasses c = Suc n" "rec_inv lib n rc0"
    "srvReconciler (server c) = begun breads reg rc0"
    using inv ph by (auto simp: cp_inv_def)
  have rs: "set rs \<subseteq> set (seen c)" "list_all store_inv sts" "list_all reg_inv (seen c)"
    using inv ph by (simp_all add: cp_inv_def)
  show ?thesis using fin
  proof (cases rule: Reconcile_end_cases)
    case failure
    then have "rec_inv lib (Suc n) rc" "lastSnapshot rc = lastSnapshot (srvReconciler (server c))"
      using n rec_inv_failure by (simp_all add: n(3))
    with inv n(1) show ?thesis by (auto simp: cp_inv_def split: option.splits)
  next
    case (success s)
    have rok: "routes_ok (routeReads reads)"
      using reads rs(2) by (auto simp: reads_from_def routes_ok_def list_all_iff)
    have "snapshot_sound lib (seen c) s"
      by (rule built_snapshot_sound [OF lib success(1) rok _ rs(3)]) (use reads rs(1) in \<open>auto simp: reads_from_def\<close>)
    moreover have "GetVersion lib s t = version_string (version rc0 + 1)" for t
      using indexed_build [OF lib success(1)] by (auto simp: indexed_def n(3))
    then have "rec_inv lib (Suc n) rc"
      unfolding success(2) n(3) by (intro rec_inv_published [OF n(2)])
    moreover have "lastSnapshot rc = Some s" by (simp add: success(2))
    ultimately show ?thesis using inv n(1) by (simp add: cp_inv_def)
  qed
qed

lemma cp_inv_step:
  assumes "lib_snapshots lib" and "cp_inv lib c" and "cp_step lib SetSnapshot json c c'"
  shows "cp_inv lib c'"
  using assms(3)
proof cases
  case (cp_request library rnd t1 now t2 rq later tr s w tr' ctx')
  note s = api_server [OF cp_request(2)]
  have "reg_inv (srvRegistry (server c))" "store_inv (srvRoutes (server c))"
    using assms(2) by (auto simp: cp_inv_def list_all_iff)
  then show ?thesis
    unfolding cp_request(1) using s by (intro cp_inv_request [OF assms(2)]) (simp_all add: reg_inv_fold store_inv_fold)
next
  case (cp_begin now reg rc)
  then show ?thesis using cp_inv_begin [OF assms(2)] by simp
next
  case (cp_end rs sts reads ctx cache rc err)
  show ?thesis unfolding cp_end(1) by (rule cp_inv_end [OF assms(1,2) cp_end(2-4)])
qed (use assms(2) in \<open>auto simp: cp_inv_def SetReady_def split: phase.splits option.splits\<close>)

lemma cp_inv_reachable:
  "lib_snapshots lib \<Longrightarrow> cp_reachable lib SetSnapshot json c \<Longrightarrow> cp_inv lib c"
proof (rotate_tac, induction rule: cp_reachable.induct)
  case (cr_init cfg cache)
  show ?case by (rule cp_inv_New)
next
  case (cr_step c c')
  then show ?case using cp_inv_step by blast
qed

section \<open>Properties\<close>

text \<open>C6. The control plane as a whole: however requests, stream callbacks and passes interleave, the
  registry and the route store keep their invariants, and the snapshot that the last
  successful pass published is consistent, routes only to its own clusters, lists only
  endpoints that were registered and healthy at some moment, and carries the number of one
  of the passes so far as its version.\<close>

theorem control_plane_sound:
  assumes "lib_snapshots lib" and "cp_reachable lib SetSnapshot json c"
  shows "reg_inv (srvRegistry (server c)) \<and> store_inv (srvRoutes (server c))
    \<and> (case LastSnapshot (srvReconciler (server c)) of
         None \<Rightarrow> True
       | Some s \<Rightarrow> snapshot_sound lib (seen c) s
           \<and> (\<exists>v. \<forall>t. GetVersion lib s t = version_string v
                \<and> (begunPasses c < 2 ^ 64 \<longrightarrow> 0 < unat v \<and> unat v \<le> begunPasses c)))"
proof -
  have inv: "cp_inv lib c" by (rule cp_inv_reachable [OF assms])
  have reg: "reg_inv (srvRegistry (server c))" "store_inv (srvRoutes (server c))"
    using inv by (auto simp: cp_inv_def list_all_iff)
  obtain n rc where n: "n \<le> begunPasses c" "rec_inv lib n rc"
    "lastSnapshot rc = lastSnapshot (srvReconciler (server c))"
  proof (cases "cpPhase c")
    case Idle
    with inv that [of "begunPasses c" "srvReconciler (server c)"] show ?thesis by (simp add: cp_inv_def)
  next
    case (Passing rs sts)
    then obtain reads reg rc m where "begunPasses c = Suc m" "rec_inv lib m rc" "srvReconciler (server c) = begun reads reg rc"
      using inv by (auto simp: cp_inv_def)
    with that [of m rc] show ?thesis by simp
  qed
  have "\<exists>v. (\<forall>t. GetVersion lib s t = version_string v) \<and> (begunPasses c < 2 ^ 64 \<longrightarrow> 0 < unat v \<and> unat v \<le> begunPasses c)"
    if last: "lastSnapshot (srvReconciler (server c)) = Some s" for s
  proof -
    obtain tr where tr: "config_versions tr \<noteq> []" "\<forall>t. GetVersion lib s t = version_string (last (config_versions tr))"
      "n < 2 ^ 64 \<longrightarrow> list_all (\<lambda>v. 0 < unat v \<and> unat v \<le> n) (config_versions tr)"
      using n(2) last n(3) unfolding rec_inv_def by auto
    then show ?thesis
      using n(1) last_in_set [OF tr(1)] by (intro exI [of _ "last (config_versions tr)"])
        (auto simp: list_all_iff intro: order_trans)
  qed
  with inv reg show ?thesis
    unfolding LastSnapshot_def cp_inv_def by (auto split: option.splits)
qed

theorem control_plane_sound_witness:
  "\<exists>c s. cp_reachable ref_lib ref_SetSnapshot sample_json c \<and> begunPasses c = 1
     \<and> LastSnapshot (srvReconciler (server c)) = Some s \<and> snapshot_sound ref_lib (seen c) s
     \<and> find_instance (srvRegistry (server c)) ''default/a'' ''i1'' \<noteq> None"
proof -
  let ?c0 = "controlplane_New Default [] :: (ref_snap, (string, ref_snap) gomap) ControlPlane"
  let ?rq = "sample_request ''POST'' [''v1'', ''services'']"
  obtain s1 w tr ctx where api:
    "api_ServeHTTP ref_lib sample_json (\<lambda>_ _ w. w) None 5 5 5 ?rq (server ?c0) [] (server ?c0) = (s1, w, tr, ctx)"
    by (metis prod.exhaust)
  let ?c1 = "?c0\<lparr>server := s1, cpPhase := note_state s1 (cpPhase ?c0), seen := srvRegistry s1 # seen ?c0\<rparr>"
  have step1: "cp_step ref_lib ref_SetSnapshot sample_json ?c0 ?c1" by (rule cp_request [OF api])
  have "registry_ops sample_json 5 ?rq = [OpRegister 5 (sample_instance ''default'' ''a'' ''i1'' [])]"
    by (simp add: registry_ops_def mux_match_def mux_patterns_def sample_request_def sample_json_def
        request_instance_def sample_instance_def namespaceOrDefault_def)
  then have s1: "find_instance (srvRegistry s1) ''default/a'' ''i1'' \<noteq> None"
    using api_server [OF api] by (simp add: controlplane_New_def registry_eval)
  obtain reg rc where b: "Reconcile_begin 6 (srvRegistry (server ?c1), srvReconciler (server ?c1)) = (reg, rc)"
    by fastforce
  let ?c2 = "?c1\<lparr>server := (server ?c1)\<lparr>srvRegistry := reg, srvReconciler := rc\<rparr>,
    cpPhase := Passing [reg] [srvRoutes (server ?c1)], begunPasses := Suc (begunPasses ?c1), seen := reg # seen ?c1\<rparr>"
  have step2: "cp_step ref_lib ref_SetSnapshot sample_json ?c1 ?c2"
    by (rule cp_begin [OF _ b]) (simp add: controlplane_New_def note_state_def)
  let ?reads = "\<lparr>startTime = 6, sweepTime = 6, endTime = 6, listRegistry = reg, splitReads = still reg 6,
    routeReads = Some (\<lambda>_. srvRoutes (server ?c1)), servicesRegistry = reg, countRegistry = reg, countReads = (\<lambda>_. reg)\<rparr>"
  obtain snap where "BuildSnapshot ref_lib reg (Some (\<lambda>_. srvRoutes (server ?c1))) (still reg 6) (version_string (version rc)) = Inr snap"
    using ref_build by blast
  then obtain cache rc' where e: "Reconcile_end ref_lib ref_SetSnapshot () ?reads (snapshotCache ?c2, srvReconciler (server ?c2)) = ((cache, rc'), None)"
    "lastSnapshot rc' = Some snap"
    by (simp add: Reconcile_end_def ref_SetSnapshot_def Let_def)
  let ?c3 = "?c2\<lparr>server := (server ?c2)\<lparr>srvReconciler := rc'\<rparr>, snapshotCache := cache, cpPhase := Idle\<rparr>"
  have step3: "cp_step ref_lib ref_SetSnapshot sample_json ?c2 ?c3"
    by (rule cp_end [where rs = "[reg]" and sts = "[srvRoutes (server ?c1)]", OF _ _ e(1)])
      (simp_all add: reads_from_def still_def)
  have r: "cp_reachable ref_lib ref_SetSnapshot sample_json ?c3"
    using cr_init step1 step2 step3 by (meson cr_step)
  have "reg = fst (SweepStale 6 (recStaleAfter (srvReconciler s1)) (srvRegistry s1))"
    using b by (auto simp: Reconcile_begin_def metric_def Let_def split: prod.splits)
  then have "find_instance reg ''default/a'' ''i1'' \<noteq> None" using s1 by (simp add: find_SweepStale)
  moreover have "LastSnapshot (srvReconciler (server ?c3)) = Some snap" by (simp add: LastSnapshot_def e(2))
  moreover have "begunPasses ?c3 = 1" by (simp add: controlplane_New_def)
  ultimately show ?thesis
    using control_plane_sound [OF ref_lib_snapshots r] r by (intro exI [of _ ?c3] exI [of _ snap]) simp
qed

end
