(* ===== verification/Mesh_XdsServer.thy ===== *)
theory Mesh_XdsServer
  imports Mesh_Snapshot
begin

text \<open>
  The xDS server, \<open>internal/xds/server.go\<close>: \<open>NewServer\<close>, which registers the discovery services
  and the health service, and \<open>Serve\<close> with its errors.

  The gRPC server, the go-control-plane server and the health server are third-party objects;
  their functions are the fields of \<open>grpc_build\<close>, and \<open>grpc_build_ok\<close> says what registration
  does: a service that is registered is answered by the implementation it was registered with.
\<close>

section \<open>Construction\<close>

datatype discovery_service =
  AggregatedDiscovery | ClusterDiscovery | EndpointDiscovery | ListenerDiscovery | RouteDiscovery

datatype serving_status = HealthCheckResponse_SERVING

record ('cache, 'cb, 'x, 'h, 'g) grpc_build =
  serverv3_NewServer :: "'cache \<Rightarrow> 'cb \<Rightarrow> 'x"
  grpc_NewServer :: 'g
  RegisterDiscoveryServer :: "discovery_service \<Rightarrow> 'x \<Rightarrow> 'g \<Rightarrow> 'g"
  health_NewServer :: 'h
  RegisterHealthServer :: "'g \<Rightarrow> 'g"
  SetServingStatus :: "string \<Rightarrow> serving_status \<Rightarrow> 'h \<Rightarrow> 'h"

text \<open>The health server is a shared object: it is registered first and changed afterwards. Its state is
  kept beside the gRPC server.\<close>

record ('g, 'h) xds_Server =
  grpcServer :: 'g
  healthSrv :: 'h

definition xds_NewServer :: "('cache, 'cb, 'x, 'h, 'g) grpc_build \<Rightarrow> 'cache \<Rightarrow> 'cb \<Rightarrow> ('g, 'h) xds_Server" where
  "xds_NewServer lib cache callbacks =
     (let xdsSrv = serverv3_NewServer lib cache callbacks;
          g = grpc_NewServer lib;
          g = RegisterDiscoveryServer lib AggregatedDiscovery xdsSrv g;
          g = RegisterDiscoveryServer lib ClusterDiscovery xdsSrv g;
          g = RegisterDiscoveryServer lib EndpointDiscovery xdsSrv g;
          g = RegisterDiscoveryServer lib ListenerDiscovery xdsSrv g;
          g = RegisterDiscoveryServer lib RouteDiscovery xdsSrv g;
          h = health_NewServer lib;
          g = RegisterHealthServer lib g;
          h = SetServingStatus lib [] HealthCheckResponse_SERVING h
      in \<lparr>grpcServer = g, healthSrv = h\<rparr>)"

text \<open>\<open>answers g d\<close> is the implementation behind a discovery service, \<open>healthy h n\<close> the status of a service.\<close>

definition grpc_build_ok ::
    "('cache, 'cb, 'x, 'h, 'g) grpc_build \<Rightarrow> ('g \<Rightarrow> discovery_service \<Rightarrow> 'x option)
      \<Rightarrow> ('g \<Rightarrow> bool) \<Rightarrow> ('h \<Rightarrow> string \<Rightarrow> serving_status option) \<Rightarrow> bool" where
  "grpc_build_ok lib answers has_health healthy \<longleftrightarrow>
     (\<forall>d x g. answers (RegisterDiscoveryServer lib d x g) = (answers g)(d \<mapsto> x))
     \<and> (\<forall>g. answers (RegisterHealthServer lib g) = answers g \<and> has_health (RegisterHealthServer lib g))
     \<and> (\<forall>n st h. healthy (SetServingStatus lib n st h) = (healthy h)(n \<mapsto> st))"

text \<open>The service that delivers the resources of a type when they are not aggregated.\<close>

fun discovery_of :: "resource_type \<Rightarrow> discovery_service" where
  "discovery_of ClusterType = ClusterDiscovery"
| "discovery_of EndpointType = EndpointDiscovery"
| "discovery_of ListenerType = ListenerDiscovery"
| "discovery_of RouteType = RouteDiscovery"

text \<open>Every type of resource that a snapshot has is delivered, aggregated and on its own, by one server
  over the given cache and callbacks, and the overall health is SERVING.\<close>

lemma xds_NewServer_serves:
  assumes "grpc_build_ok lib answers has_health healthy"
  shows "answers (grpcServer (xds_NewServer lib cache cb)) AggregatedDiscovery = Some (serverv3_NewServer lib cache cb)"
    and "answers (grpcServer (xds_NewServer lib cache cb)) (discovery_of t) = Some (serverv3_NewServer lib cache cb)"
    and "has_health (grpcServer (xds_NewServer lib cache cb))"
    and "healthy (healthSrv (xds_NewServer lib cache cb)) [] = Some HealthCheckResponse_SERVING"
  using assms by (cases t; simp add: xds_NewServer_def grpc_build_ok_def Let_def)+

section \<open>Serving\<close>

datatype xds_error = ErrListen string lib_error | ErrServe lib_error

text \<open>\<open>ServeListener\<close> and \<open>Serve\<close>, given what \<open>net.Listen\<close> and the gRPC server's \<open>Serve\<close> return.\<close>

definition ServeListener :: "lib_error option \<Rightarrow> xds_error option" where
  "ServeListener served = (case served of None \<Rightarrow> None | Some err \<Rightarrow> Some (ErrServe err))"

definition xds_Serve :: "string \<Rightarrow> lib_error option \<Rightarrow> lib_error option \<Rightarrow> xds_error option" where
  "xds_Serve addr listened served =
     (case listened of
        Some err \<Rightarrow> Some (ErrListen addr err)
      | None \<Rightarrow> ServeListener served)"

end
