(* ===== verification/Mesh_Lifecycle.thy ===== *)
theory Mesh_Lifecycle
  imports Mesh_ControlPlane Mesh_XdsServer
begin

text \<open>
  The life of the process: \<open>ControlPlane.Run\<close> of \<open>internal/controlplane/controlplane.go\<close> with the two
  server goroutines it starts, and \<open>main\<close> of \<open>cmd/control-plane\<close>.

  Each goroutine has a program counter and moves by single effects; the scheduler and the
  outside world (signals, connections, failing listeners) choose the order. The gRPC server
  is third-party code and is the record \<open>grpc_lib\<close>, whose documented behaviour is
  \<open>grpc_contract\<close>. The HTTP server of the standard library is modelled as documented:
  \<open>ListenAndServe\<close> always returns an error, which is \<open>ErrServerClosed\<close> only once \<open>Shutdown\<close> was called;
  \<open>Shutdown\<close> returns nil when no request is in flight, and an error when its deadline passes or
  closing a listener fails. The deadline is a step that is possible at any moment of the wait.
\<close>

section \<open>The servers\<close>

datatype http_error = ErrServerClosed | HttpError lib_error

datatype grpc_phase = Accepting | Stopping | Stopped

record grpc_lib =
  Serve_returns :: "grpc_phase \<Rightarrow> lib_error option \<Rightarrow> bool"
  GracefulStop_returns :: "nat \<Rightarrow> bool"
  accepts_stream :: "grpc_phase \<Rightarrow> bool"

definition grpc_contract :: "grpc_lib \<Rightarrow> bool" where
  "grpc_contract grpc \<longleftrightarrow>
     \<not> Serve_returns grpc Accepting None \<and> (\<exists>res. Serve_returns grpc Stopped res)
     \<and> (\<forall>n. GracefulStop_returns grpc n \<longleftrightarrow> n = 0)
     \<and> (\<forall>p. accepts_stream grpc p \<longrightarrow> p = Accepting)"

definition ref_grpc :: grpc_lib where
  "ref_grpc =
     \<lparr>Serve_returns = (\<lambda>p res. (case res of None \<Rightarrow> p = Stopped | Some _ \<Rightarrow> p = Accepting)),
      GracefulStop_returns = (\<lambda>n. n = 0), accepts_stream = (\<lambda>p. p = Accepting)\<rparr>"

lemma ref_grpc_contract: "grpc_contract ref_grpc"
  unfolding grpc_contract_def ref_grpc_def by (auto intro: exI [of _ None])

section \<open>The state of a run\<close>

datatype http_pc = HttpStart | HttpServing | HttpSend "lib_error option" | HttpDone

datatype xds_pc = XdsServing | XdsSend "xds_error option" | XdsDone

datatype run_error = ErrShutdown lib_error | ErrHttpExited lib_error | ErrXdsExited xds_error

datatype main_pc =
    InSelect | AtSetReady | AtStopReconcile | AtGracefulStop | InGracefulStop
  | AtShutdown | InShutdown | AtHttpRecv | AtXdsRecv | RunReturned "run_error option"

record 'snap run_state =
  runServer :: "'snap Server"
  ctxDone :: bool
  stopReconcile :: bool
  httpG :: http_pc
  xdsG :: xds_pc
  mainG :: main_pc
  httpErrCh :: "lib_error option list"
  xdsErrCh :: "xds_error option list"
  shuttingDown :: bool
  drained :: bool
  grpcPhase :: grpc_phase
  openStreams :: nat
  inFlight :: nat

definition run_init :: "('snap, 'cache) ControlPlane \<Rightarrow> 'snap run_state" where
  "run_init c =
     \<lparr>runServer = server c, ctxDone = False, stopReconcile = False, httpG = HttpStart, xdsG = XdsServing,
      mainG = InSelect, httpErrCh = [], xdsErrCh = [], shuttingDown = False, drained = False,
      grpcPhase = Accepting, openStreams = 0, inFlight = 0\<rparr>"

text \<open>The context of the reconciliation loop is derived from the context of \<open>Run\<close>.\<close>

definition reconcileCtx_done :: "'snap run_state \<Rightarrow> bool" where
  "reconcileCtx_done s \<longleftrightarrow> ctxDone s \<or> stopReconcile s"

text \<open>Every return runs the deferred \<open>stopReconcile()\<close>.\<close>

definition run_return :: "run_error option \<Rightarrow> 'snap run_state \<Rightarrow> 'snap run_state" where
  "run_return res s = s\<lparr>mainG := RunReturned res, stopReconcile := True\<rparr>"

section \<open>The steps\<close>

text \<open>The goroutine of \<open>Run\<close> itself: the select statement with its three cases, and the shutdown.\<close>

inductive main_step :: "grpc_lib \<Rightarrow> 'snap run_state \<Rightarrow> 'snap run_state \<Rightarrow> bool" for grpc where
  m_done: "mainG s = InSelect \<Longrightarrow> ctxDone s \<Longrightarrow> main_step grpc s (s\<lparr>mainG := AtSetReady\<rparr>)"
| m_http: "mainG s = InSelect \<Longrightarrow> httpErrCh s = err # rest \<Longrightarrow>
    main_step grpc s (run_return (map_option ErrHttpExited err) (s\<lparr>httpErrCh := rest\<rparr>))"
| m_xds: "mainG s = InSelect \<Longrightarrow> xdsErrCh s = xerr # xrest \<Longrightarrow>
    main_step grpc s (run_return (map_option ErrXdsExited xerr) (s\<lparr>xdsErrCh := xrest\<rparr>))"
| m_ready: "mainG s = AtSetReady \<Longrightarrow>
    main_step grpc s (s\<lparr>runServer := SetReady False (runServer s), mainG := AtStopReconcile\<rparr>)"
| m_stop: "mainG s = AtStopReconcile \<Longrightarrow> main_step grpc s (s\<lparr>stopReconcile := True, mainG := AtGracefulStop\<rparr>)"
| m_grace: "mainG s = AtGracefulStop \<Longrightarrow> main_step grpc s (s\<lparr>grpcPhase := Stopping, mainG := InGracefulStop\<rparr>)"
| m_graced: "mainG s = InGracefulStop \<Longrightarrow> GracefulStop_returns grpc (openStreams s) \<Longrightarrow>
    main_step grpc s (s\<lparr>grpcPhase := Stopped, mainG := AtShutdown\<rparr>)"
| m_shutdown: "mainG s = AtShutdown \<Longrightarrow> main_step grpc s (s\<lparr>shuttingDown := True, mainG := InShutdown\<rparr>)"
| m_drained: "mainG s = InShutdown \<Longrightarrow> inFlight s = 0 \<Longrightarrow>
    main_step grpc s (s\<lparr>drained := True, mainG := AtHttpRecv\<rparr>)"
| m_deadline: "mainG s = InShutdown \<Longrightarrow> main_step grpc s (run_return (Some (ErrShutdown e)) s)"
| m_recv_http: "mainG s = AtHttpRecv \<Longrightarrow> httpErrCh s = err # rest \<Longrightarrow>
    main_step grpc s (s\<lparr>httpErrCh := rest, mainG := AtXdsRecv\<rparr>)"
| m_recv_xds: "mainG s = AtXdsRecv \<Longrightarrow> xdsErrCh s = xerr # xrest \<Longrightarrow>
    main_step grpc s (run_return None (s\<lparr>xdsErrCh := xrest\<rparr>))"

text \<open>What the HTTP goroutine sends for the result of \<open>ListenAndServe\<close>.\<close>

definition http_result :: "http_error \<Rightarrow> lib_error option" where
  "http_result err = (case err of ErrServerClosed \<Rightarrow> None | HttpError e \<Rightarrow> Some e)"

text \<open>The two server goroutines; their channels have one place.\<close>

inductive go_step :: "grpc_lib \<Rightarrow> Config \<Rightarrow> 'snap run_state \<Rightarrow> 'snap run_state \<Rightarrow> bool" for grpc cfg where
  h_ready: "httpG s = HttpStart \<Longrightarrow>
    go_step grpc cfg s (s\<lparr>runServer := SetReady True (runServer s), httpG := HttpServing\<rparr>)"
| h_closed: "httpG s = HttpServing \<Longrightarrow> shuttingDown s \<Longrightarrow>
    go_step grpc cfg s (s\<lparr>httpG := HttpSend (http_result ErrServerClosed)\<rparr>)"
| h_send: "httpG s = HttpSend err \<Longrightarrow> length (httpErrCh s) < 1 \<Longrightarrow>
    go_step grpc cfg s (s\<lparr>httpErrCh := httpErrCh s @ [err], httpG := HttpDone\<rparr>)"
| x_served: "xdsG s = XdsServing \<Longrightarrow> grpcPhase s \<noteq> Accepting \<Longrightarrow> Serve_returns grpc (grpcPhase s) res \<Longrightarrow>
    go_step grpc cfg s (s\<lparr>xdsG := XdsSend (xds_Serve (XDSAddr cfg) None res)\<rparr>)"
| x_send: "xdsG s = XdsSend xerr \<Longrightarrow> length (xdsErrCh s) < 1 \<Longrightarrow>
    go_step grpc cfg s (s\<lparr>xdsErrCh := xdsErrCh s @ [xerr], xdsG := XdsDone\<rparr>)"

text \<open>The outside: the signal, xDS streams, HTTP requests, and servers that fail on their own. Requests
  may still start on kept-alive connections until \<open>Shutdown\<close> has returned. Requests, callbacks
  and passes change the state of the server, but not its readiness.\<close>

inductive env_step :: "grpc_lib \<Rightarrow> Config \<Rightarrow> 'snap run_state \<Rightarrow> 'snap run_state \<Rightarrow> bool" for grpc cfg where
  e_cancel: "env_step grpc cfg s (s\<lparr>ctxDone := True\<rparr>)"
| e_open: "accepts_stream grpc (grpcPhase s) \<Longrightarrow> env_step grpc cfg s (s\<lparr>openStreams := Suc (openStreams s)\<rparr>)"
| e_close: "env_step grpc cfg s (s\<lparr>openStreams := openStreams s - 1\<rparr>)"
| e_begin: "httpG s \<noteq> HttpStart \<Longrightarrow> \<not> drained s \<Longrightarrow> env_step grpc cfg s (s\<lparr>inFlight := Suc (inFlight s)\<rparr>)"
| e_end: "env_step grpc cfg s (s\<lparr>inFlight := inFlight s - 1\<rparr>)"
| e_serve: "srvReady srv = srvReady (runServer s) \<Longrightarrow> env_step grpc cfg s (s\<lparr>runServer := srv\<rparr>)"
| e_http: "httpG s = HttpServing \<Longrightarrow> env_step grpc cfg s (s\<lparr>httpG := HttpSend (http_result (HttpError e))\<rparr>)"
| e_listen: "xdsG s = XdsServing \<Longrightarrow>
    env_step grpc cfg s (s\<lparr>xdsG := XdsSend (xds_Serve (XDSAddr cfg) (Some e) res)\<rparr>)"
| e_xds: "xdsG s = XdsServing \<Longrightarrow> Serve_returns grpc (grpcPhase s) res \<Longrightarrow>
    env_step grpc cfg s (s\<lparr>xdsG := XdsSend (xds_Serve (XDSAddr cfg) None res)\<rparr>)"

definition prog_step :: "grpc_lib \<Rightarrow> Config \<Rightarrow> 'snap run_state \<Rightarrow> 'snap run_state \<Rightarrow> bool" where
  "prog_step grpc cfg s s' \<longleftrightarrow> main_step grpc s s' \<or> go_step grpc cfg s s'"

inductive run_reachable :: "grpc_lib \<Rightarrow> Config \<Rightarrow> 'snap run_state \<Rightarrow> bool" for grpc cfg where
  run_start: "run_reachable grpc cfg (run_init (controlplane_New cfg ()))"
| run_prog: "run_reachable grpc cfg s \<Longrightarrow> prog_step grpc cfg s s' \<Longrightarrow> run_reachable grpc cfg s'"
| run_env: "run_reachable grpc cfg s \<Longrightarrow> env_step grpc cfg s s' \<Longrightarrow> run_reachable grpc cfg s'"

inductive_cases main_stepE: "main_step grpc s s'"

inductive_cases go_stepE: "go_step grpc cfg s s'"

inductive_cases env_stepE: "env_step grpc cfg s s'"

text \<open>\<open>main\<close> of the command: its exit status. \<open>run\<close> is what \<open>Run\<close> returns for the loaded configuration.\<close>

definition control_plane_main ::
    "(string \<Rightarrow> nat \<Rightarrow> nat) \<Rightarrow> (string \<Rightarrow> string) \<Rightarrow> (Config \<Rightarrow> run_error option) \<Rightarrow> int" where
  "control_plane_main frac getenv run =
     (case Load frac getenv of
        Inl err \<Rightarrow> 1
      | Inr cfg \<Rightarrow> (case run cfg of Some err \<Rightarrow> 1 | None \<Rightarrow> 0))"

section \<open>The invariant\<close>

text \<open>How far the main goroutine is; a returned run is past every other place.\<close>

fun main_rank :: "main_pc \<Rightarrow> nat" where
  "main_rank InSelect = 0"
| "main_rank AtSetReady = 1"
| "main_rank AtStopReconcile = 2"
| "main_rank AtGracefulStop = 3"
| "main_rank InGracefulStop = 4"
| "main_rank AtShutdown = 5"
| "main_rank InShutdown = 6"
| "main_rank AtHttpRecv = 7"
| "main_rank AtXdsRecv = 8"
| "main_rank (RunReturned res) = 9"

definition phase_of :: "nat \<Rightarrow> grpc_phase" where
  "phase_of n = (if n < 4 then Accepting else if n = 4 then Stopping else Stopped)"

definition channels_inv :: "'snap run_state \<Rightarrow> bool" where
  "channels_inv s \<longleftrightarrow>
     (httpG s \<noteq> HttpDone \<longrightarrow> httpErrCh s = []) \<and> (xdsG s \<noteq> XdsDone \<longrightarrow> xdsErrCh s = [])
     \<and> (httpG s = HttpDone \<and> main_rank (mainG s) < 8 \<longrightarrow> httpErrCh s \<noteq> [])
     \<and> (xdsG s = XdsDone \<and> main_rank (mainG s) < 9 \<longrightarrow> xdsErrCh s \<noteq> [])
     \<and> (httpG s = HttpSend None \<or> None \<in> set (httpErrCh s) \<longrightarrow> shuttingDown s)
     \<and> (xdsG s = XdsSend None \<or> None \<in> set (xdsErrCh s) \<longrightarrow> grpcPhase s \<noteq> Accepting)
     \<and> (mainG s = AtXdsRecv \<longrightarrow> httpG s = HttpDone)"

definition main_inv :: "'snap run_state \<Rightarrow> bool" where
  "main_inv s \<longleftrightarrow>
     (case mainG s of
        RunReturned res \<Rightarrow> stopReconcile s
          \<and> (case res of
               None \<Rightarrow> ctxDone s \<and> grpcPhase s = Stopped \<and> drained s \<and> httpG s = HttpDone \<and> xdsG s = XdsDone
             | Some (ErrShutdown e) \<Rightarrow> ctxDone s \<and> grpcPhase s = Stopped
             | Some (ErrHttpExited e) \<Rightarrow> httpG s = HttpDone \<and> grpcPhase s = Accepting \<and> \<not> shuttingDown s
             | Some (ErrXdsExited e) \<Rightarrow> xdsG s = XdsDone \<and> grpcPhase s = Accepting \<and> \<not> shuttingDown s)
      | pc \<Rightarrow> (0 < main_rank pc \<longrightarrow> ctxDone s) \<and> (2 < main_rank pc \<longrightarrow> stopReconcile s)
          \<and> grpcPhase s = phase_of (main_rank pc)
          \<and> (shuttingDown s \<longleftrightarrow> 5 < main_rank pc) \<and> (drained s \<longleftrightarrow> 6 < main_rank pc))"

definition run_inv :: "'snap run_state \<Rightarrow> bool" where
  "run_inv s \<longleftrightarrow> channels_inv s \<and> main_inv s
     \<and> (grpcPhase s = Stopped \<longrightarrow> openStreams s = 0) \<and> (drained s \<longrightarrow> inFlight s = 0)"

lemmas run_inv_defs = run_inv_def channels_inv_def main_inv_def phase_of_def run_return_def

lemma run_inv_init: "run_inv (run_init c)"
  by (simp add: run_inv_defs run_init_def)

lemma run_inv_main:
  assumes "grpc_contract grpc" and "main_step grpc s s'" and "run_inv s"
  shows "run_inv s'"
  using assms(2)
proof cases
  case (m_http err rest)
  with assms(3) show ?thesis by (cases err) (auto simp: run_inv_defs neq_Nil_conv)
next
  case (m_xds err rest)
  with assms(3) show ?thesis by (cases err) (auto simp: run_inv_defs neq_Nil_conv)
qed (use assms(1,3) in \<open>auto simp: run_inv_defs grpc_contract_def\<close>)

lemma run_inv_go:
  assumes "go_step grpc cfg s s'" and "run_inv s"
  shows "run_inv s'"
  using assms(1)
proof cases
  case (x_served res)
  with assms(2) show ?thesis by (auto simp: run_inv_defs split: main_pc.splits option.splits run_error.splits)
qed (use assms(2) in \<open>auto simp: run_inv_defs http_result_def split: main_pc.splits option.splits run_error.splits\<close>)

lemma run_inv_env:
  assumes "grpc_contract grpc" and "env_step grpc cfg s s'" and "run_inv s"
  shows "run_inv s'"
  using assms(2)
proof cases
  case (e_xds res)
  with assms(1,3) show ?thesis
    by (cases res; cases "grpcPhase s")
      (auto simp: run_inv_defs grpc_contract_def xds_Serve_def ServeListener_def split: main_pc.splits option.splits run_error.splits)
qed (use assms(1,3) in \<open>auto simp: run_inv_defs grpc_contract_def http_result_def xds_Serve_def ServeListener_def
       split: main_pc.splits option.splits run_error.splits\<close>)

lemma run_inv_prog:
  "grpc_contract grpc \<Longrightarrow> prog_step grpc cfg s s' \<Longrightarrow> run_inv s \<Longrightarrow> run_inv s'"
  unfolding prog_step_def using run_inv_main run_inv_go by blast

lemma run_inv_reachable:
  assumes "grpc_contract grpc" and "run_reachable grpc cfg s"
  shows "run_inv s"
  using assms(2)
proof induction
  case run_start
  show ?case by (rule run_inv_init)
qed (use run_inv_prog [OF assms(1)] run_inv_env [OF assms(1)] in blast)+

section \<open>Progress\<close>

text \<open>The steps that the three goroutines still have before them.\<close>

definition run_measure :: "'snap run_state \<Rightarrow> nat" where
  "run_measure s =
     (9 - main_rank (mainG s))
     + (case httpG s of HttpStart \<Rightarrow> 3 | HttpServing \<Rightarrow> 2 | HttpSend err \<Rightarrow> 1 | HttpDone \<Rightarrow> 0)
     + (case xdsG s of XdsServing \<Rightarrow> 2 | XdsSend err \<Rightarrow> 1 | XdsDone \<Rightarrow> 0)"

lemma prog_step_decreases: "prog_step grpc cfg s s' \<Longrightarrow> run_measure s' < run_measure s"
  unfolding prog_step_def by (elim disjE main_stepE go_stepE) (auto simp: run_measure_def run_return_def)

lemma run_measure_bound: "run_measure s \<le> 14"
  unfolding run_measure_def by (cases "httpG s"; cases "xdsG s"; simp; arith)

lemma prog_steps_bounded: "(prog_step grpc cfg ^^ n) s s' \<Longrightarrow> n + run_measure s' \<le> run_measure s"
proof (induction n arbitrary: s')
  case (Suc n)
  then obtain t where "(prog_step grpc cfg ^^ n) s t" "prog_step grpc cfg t s'" by auto
  with Suc.IH prog_step_decreases show ?case by fastforce
qed simp

lemma prog_step_env_kept:
  "prog_step grpc cfg s s' \<Longrightarrow> ctxDone s' = ctxDone s \<and> openStreams s' = openStreams s"
  unfolding prog_step_def by (elim disjE main_stepE go_stepE) (auto simp: run_return_def)

lemma prog_steps_kept:
  assumes "grpc_contract grpc" and "(prog_step grpc cfg ^^ n) s s'" and "run_inv s"
  shows "run_inv s' \<and> ctxDone s' = ctxDone s \<and> openStreams s' = openStreams s"
  using assms(2)
proof (induction n arbitrary: s')
  case (Suc n)
  then obtain t where "(prog_step grpc cfg ^^ n) s t" and st: "prog_step grpc cfg t s'" by auto
  with Suc.IH run_inv_prog [OF assms(1) st] prog_step_env_kept [OF st] show ?case by simp
qed (use assms(3) in simp)

lemma http_unblocked:
  assumes "run_inv s" and "mainG s = AtHttpRecv"
  shows "httpErrCh s \<noteq> [] \<or> (\<exists>t. go_step grpc cfg s t)"
proof -
  have inv: "httpG s \<noteq> HttpDone \<longrightarrow> httpErrCh s = []" "httpG s = HttpDone \<longrightarrow> httpErrCh s \<noteq> []" "shuttingDown s"
    using assms by (simp_all add: run_inv_defs)
  show ?thesis
  proof (cases "httpG s")
    case HttpStart
    then show ?thesis by (blast intro: h_ready)
  next
    case HttpServing
    with inv(3) show ?thesis by (blast intro: h_closed)
  next
    case (HttpSend err)
    with inv(1) have "length (httpErrCh s) < 1" by simp
    with HttpSend show ?thesis by (blast intro: h_send)
  qed (use inv(2) in blast)
qed

lemma xds_unblocked:
  assumes "grpc_contract grpc" and "run_inv s" and "mainG s = AtXdsRecv"
  shows "xdsErrCh s \<noteq> [] \<or> (\<exists>t. go_step grpc cfg s t)"
proof -
  have inv: "xdsG s \<noteq> XdsDone \<longrightarrow> xdsErrCh s = []" "xdsG s = XdsDone \<longrightarrow> xdsErrCh s \<noteq> []" "grpcPhase s = Stopped"
    using assms(2,3) by (simp_all add: run_inv_defs)
  obtain res where res: "Serve_returns grpc Stopped res" using assms(1) by (auto simp: grpc_contract_def)
  show ?thesis
  proof (cases "xdsG s")
    case XdsServing
    have "grpcPhase s \<noteq> Accepting" "Serve_returns grpc (grpcPhase s) res" using inv(3) res by simp_all
    with XdsServing show ?thesis by (blast intro: x_served)
  next
    case (XdsSend err)
    with inv(1) have "length (xdsErrCh s) < 1" by simp
    with XdsSend show ?thesis by (blast intro: x_send)
  qed (use inv(2) in blast)
qed

lemma prog_progress:
  assumes "grpc_contract grpc" and "run_inv s" and "ctxDone s" and "\<not> (\<exists>t. prog_step grpc cfg s t)"
  shows "(\<exists>res. mainG s = RunReturned res) \<or> mainG s = InGracefulStop \<and> 0 < openStreams s"
proof -
  have stuck: "\<not> main_step grpc s t" "\<not> go_step grpc cfg s t" for t using assms(4) by (auto simp: prog_step_def)
  show ?thesis
  proof (cases "mainG s")
    case InGracefulStop
    with stuck(1) have "\<not> GracefulStop_returns grpc (openStreams s)" by (blast intro: m_graced)
    with assms(1) InGracefulStop show ?thesis by (simp add: grpc_contract_def)
  next
    case AtHttpRecv
    with stuck(2) http_unblocked [OF assms(2)] obtain err rest where "httpErrCh s = err # rest"
      unfolding neq_Nil_conv by blast
    with AtHttpRecv stuck(1) show ?thesis by (blast intro: m_recv_http)
  next
    case AtXdsRecv
    with stuck(2) xds_unblocked [OF assms(1,2)] obtain err rest where "xdsErrCh s = err # rest"
      unfolding neq_Nil_conv by blast
    with AtXdsRecv stuck(1) show ?thesis by (blast intro: m_recv_xds)
  qed (use stuck(1) assms(3) in \<open>blast intro: m_done m_ready m_stop m_grace m_shutdown m_deadline\<close>)+
qed

section \<open>Sample runs\<close>

definition signalled :: "ref_snap run_state" where
  "signalled = (run_init (controlplane_New Default ()))\<lparr>ctxDone := True\<rparr>"

lemma signalled_reachable: "run_reachable grpc Default signalled"
  unfolding signalled_def using run_env [OF run_start e_cancel] .

lemma prog_main: "main_step grpc s t \<Longrightarrow> prog_step grpc cfg s t"
  and prog_go: "go_step grpc cfg s t \<Longrightarrow> prog_step grpc cfg s t"
  by (simp_all add: prog_step_def)

lemmas main_next = relpowp_Suc_I2 [where P = "prog_step grpc cfg", OF prog_main] for grpc cfg

lemmas go_next = relpowp_Suc_I2 [where P = "prog_step grpc cfg", OF prog_go] for grpc cfg

lemma reachable_steps:
  "(prog_step grpc cfg ^^ n) s s' \<Longrightarrow> run_reachable grpc cfg s \<Longrightarrow> run_reachable grpc cfg s'"
  by (induction n arbitrary: s') (auto intro: run_prog)

lemmas run_eval = signalled_def run_init_def controlplane_New_def ref_grpc_def

text \<open>A complete shutdown, step by step.\<close>

lemma sample_shutdown:
  "\<exists>s. (prog_step ref_grpc Default ^^ 14) signalled s \<and> mainG s = RunReturned None"
  unfolding numeral_nat
  apply (intro exI conjI)
   apply (rule main_next, rule m_done, simp add: run_eval, simp add: run_eval)
   apply (rule main_next, rule m_ready, simp)
   apply (rule go_next, rule h_ready, simp add: run_eval)
   apply (rule main_next, rule m_stop, simp)
   apply (rule main_next, rule m_grace, simp)
   apply (rule main_next, rule m_graced, simp, simp add: run_eval)
   apply (rule main_next, rule m_shutdown, simp)
   apply (rule go_next, rule h_closed, simp, simp)
   apply (rule go_next, rule h_send, simp, simp add: run_eval)
   apply (rule go_next, rule x_served [where res = None], simp add: run_eval, simp, simp add: run_eval)
   apply (rule go_next, rule x_send, simp, simp add: run_eval)
   apply (rule main_next, rule m_drained, simp, simp add: run_eval)
   apply (rule main_next, rule m_recv_http, simp, simp add: run_eval)
   apply (rule main_next, rule m_recv_xds, simp, simp add: run_eval)
   apply (rule relpowp_0_I)
  apply (simp add: run_return_def)
  done

section \<open>Properties\<close>

text \<open>What the result of \<open>Run\<close> means, in every interleaving: nil is returned only after the signal and
  after a complete shutdown, with no xDS stream open, no request in flight and both server
  goroutines ended; a failed shutdown is reported only after the xDS server has stopped; and
  an exit of a server is reported only when that server ended by itself. In each case the
  reconciliation loop has been told to stop.\<close>

lemma Run_results:
  assumes "grpc_contract grpc" and "run_reachable grpc cfg s" and "mainG s = RunReturned res"
  shows "reconcileCtx_done s
    \<and> (case res of
         None \<Rightarrow> ctxDone s \<and> grpcPhase s = Stopped \<and> openStreams s = 0 \<and> inFlight s = 0
           \<and> httpG s = HttpDone \<and> xdsG s = XdsDone
       | Some (ErrShutdown e) \<Rightarrow> ctxDone s \<and> grpcPhase s = Stopped \<and> openStreams s = 0
       | Some (ErrHttpExited e) \<Rightarrow> httpG s = HttpDone \<and> grpcPhase s = Accepting \<and> \<not> shuttingDown s
       | Some (ErrXdsExited e) \<Rightarrow> xdsG s = XdsDone \<and> grpcPhase s = Accepting \<and> \<not> shuttingDown s)"
  using run_inv_reachable [OF assms(1,2)] assms(3)
  by (auto simp: run_inv_def main_inv_def reconcileCtx_done_def split: option.splits run_error.splits)

lemma Run_results_sample:
  "\<exists>s. run_reachable ref_grpc Default (s :: ref_snap run_state) \<and> mainG s = RunReturned None
     \<and> httpG s = HttpDone \<and> xdsG s = XdsDone"
proof -
  obtain s where s: "(prog_step ref_grpc Default ^^ 14) signalled s" "mainG s = RunReturned None"
    using sample_shutdown by blast
  have r: "run_reachable ref_grpc Default s" by (rule reachable_steps [OF s(1) signalled_reachable])
  show ?thesis using Run_results [OF ref_grpc_contract r s(2)] r s(2) by auto
qed

text \<open>C19. Shutdown ends: after the signal the program takes at most fourteen more steps of its own, in
  any order, and when it can take none, \<open>Run\<close> has returned, unless it waits in \<open>GracefulStop\<close> for an
  xDS stream that is still open.\<close>

theorem Run_returns:
  assumes "grpc_contract grpc" and "run_reachable grpc cfg s" and "ctxDone s"
    and "(prog_step grpc cfg ^^ n) s s'"
  shows "n \<le> 14
    \<and> ((\<exists>t. prog_step grpc cfg s' t) \<or> (\<exists>res. mainG s' = RunReturned res)
       \<or> mainG s' = InGracefulStop \<and> 0 < openStreams s)"
proof -
  have inv: "run_inv s'" "ctxDone s' = ctxDone s" "openStreams s' = openStreams s"
    using prog_steps_kept [OF assms(1,4) run_inv_reachable [OF assms(1,2)]] by simp_all
  have "n \<le> 14" using prog_steps_bounded [OF assms(4)] run_measure_bound [of s] by simp
  moreover have "(\<exists>t. prog_step grpc cfg s' t) \<or> (\<exists>res. mainG s' = RunReturned res)
      \<or> mainG s' = InGracefulStop \<and> 0 < openStreams s"
    using prog_progress [OF assms(1) inv(1)] inv(2,3) assms(3) by auto
  ultimately show ?thesis ..
qed

theorem Run_returns_witness:
  "\<exists>s. (prog_step ref_grpc Default ^^ 14) signalled s \<and> (14::nat) \<le> 14
     \<and> ((\<exists>t. prog_step ref_grpc Default s t) \<or> (\<exists>res. mainG s = RunReturned res))"
proof -
  obtain s where s: "(prog_step ref_grpc Default ^^ 14) signalled s" using sample_shutdown by blast
  have "ctxDone signalled" "openStreams signalled = 0" by (simp_all add: run_eval)
  with Run_returns [OF ref_grpc_contract signalled_reachable _ s] s show ?thesis by auto
qed

text \<open>The wait in \<open>GracefulStop\<close> is not bounded by \<open>ShutdownTimeout\<close>: while a stream is open, the main
  goroutine cannot move.\<close>

lemma GracefulStop_waits:
  "grpc_contract grpc \<Longrightarrow> mainG s = InGracefulStop \<Longrightarrow> 0 < openStreams s \<Longrightarrow> \<not> main_step grpc s s'"
  by (auto simp: grpc_contract_def elim: main_stepE)

text \<open>Readiness can come back during the shutdown: the HTTP goroutine sets it without looking at the
  context, so a signal that arrives early leaves a draining control plane that reports ready.\<close>

lemma ready_while_draining:
  "\<exists>s. run_reachable ref_grpc Default s \<and> mainG s = InGracefulStop
     \<and> handleReadyz (runServer (s :: ref_snap run_state)) w
         = rec_Write (BodyRaw ''{\"status\":\"ready\"}'') (rec_WriteHeader 200 w)"
proof -
  have "\<exists>s. (prog_step ref_grpc Default ^^ 5) signalled s \<and> mainG s = InGracefulStop \<and> Ready (runServer s)"
    unfolding numeral_nat
    apply (intro exI conjI)
      apply (rule main_next, rule m_done, simp add: run_eval, simp add: run_eval)
      apply (rule main_next, rule m_ready, simp)
      apply (rule main_next, rule m_stop, simp)
      apply (rule main_next, rule m_grace, simp)
      apply (rule go_next, rule h_ready, simp add: run_eval)
      apply (rule relpowp_0_I)
     apply (simp_all add: Ready_def SetReady_def)
    done
  then show ?thesis using reachable_steps [OF _ signalled_reachable] by (auto simp: handleReadyz_def)
qed

end
