(* ===== verification/Mesh_System.thy ===== *)
theory Mesh_System
  imports Mesh_Lifecycle
begin

text \<open>
  The running process as a whole: the goroutines of \<open>ControlPlane.Run\<close> with their channels, the
  goroutine of \<open>Reconciler.Run\<close> with its passes, waits and its panic, the request handlers and
  the stream callbacks, all on one shared state.

  \<open>Mesh_ControlPlane\<close> describes what happens to the data and \<open>Mesh_Lifecycle\<close> what happens to the
  process; here both are views of one system. The locale \<open>step_simulation\<close> states what makes a
  view correct, and it is interpreted for both views, so what is proved about each of them
  holds of the system.
\<close>

section \<open>Views of a step relation\<close>

locale step_simulation =
  fixes inv :: "'c \<Rightarrow> bool"
    and view :: "'c \<Rightarrow> 'a"
    and cstep :: "'c \<Rightarrow> 'c \<Rightarrow> bool"
    and astep :: "'a \<Rightarrow> 'a \<Rightarrow> bool"
  assumes inv_step: "inv c \<Longrightarrow> cstep c c' \<Longrightarrow> inv c'"
    and view_step: "inv c \<Longrightarrow> cstep c c' \<Longrightarrow> astep (view c) (view c') \<or> view c' = view c"
begin

lemma inv_steps: "cstep\<^sup>*\<^sup>* c c' \<Longrightarrow> inv c \<Longrightarrow> inv c'"
  by (induction rule: rtranclp_induct) (auto intro: inv_step)

lemma view_steps:
  assumes "cstep\<^sup>*\<^sup>* c c'" and "inv c"
  shows "astep\<^sup>*\<^sup>* (view c) (view c')"
  using assms(1)
proof (induction rule: rtranclp_induct)
  case (step d e)
  have "astep (view d) (view e) \<or> view e = view d"
    using view_step [OF inv_steps [OF step.hyps(1) assms(2)] step.hyps(2)] .
  with step.IH show ?case by (auto intro: rtranclp.rtrancl_into_rtrancl)
qed simp

end

section \<open>The system\<close>

datatype rec_pc = RecAtPass | RecInPass | RecWaiting duration | RecReturned | RecPanicked

text \<open>
  A gRPC handler that serves an xDS stream calls the opening callback once, with an ID that no
  other stream has, then the request callbacks, then the closing callback, and then it
  returns. \<open>pendingStreams\<close>, \<open>liveStreams\<close> and \<open>closingStreams\<close> say how many handlers are before,
  between and after their callbacks. \<open>sysMetrics\<close> is the trace of the metric calls of the API and of
  the callbacks, that of the reconciler being a part of its own state. \<open>passResults\<close> is a ghost
  variable: which of the passes failed, the last one first.
\<close>

record ('snap, 'cache) System =
  sysRun :: "'snap run_state"
  sysCache :: 'cache
  sysPhase :: phase
  sysPasses :: nat
  sysSeen :: "InMemory list"
  sysMetrics :: metrics
  recG :: rec_pc
  consecutiveFailures :: nat
  passResults :: "bool list"
  pendingStreams :: nat
  liveStreams :: "int list"
  closingStreams :: nat

definition sys_init :: "Config \<Rightarrow> 'cache \<Rightarrow> ('snap, 'cache) System" where
  "sys_init cfg cache =
     \<lparr>sysRun = run_init (controlplane_New cfg ()), sysCache = cache, sysPhase = Idle, sysPasses = 0,
      sysSeen = [New], sysMetrics = [], recG = RecAtPass, consecutiveFailures = 0, passResults = [],
      pendingStreams = 0, liveStreams = [], closingStreams = 0\<rparr>"

abbreviation sys_server :: "('snap, 'cache) System \<Rightarrow> 'snap Server" where
  "sys_server s \<equiv> runServer (sysRun s)"

abbreviation set_server :: "'snap Server \<Rightarrow> ('snap, 'cache) System \<Rightarrow> ('snap, 'cache) System" where
  "set_server srv s \<equiv> s\<lparr>sysRun := (sysRun s)\<lparr>runServer := srv\<rparr>\<rparr>"

text \<open>The end of a pass in \<open>Reconciler.Run\<close>: the count of failures in a row, and the wait, or the panic
  of the backoff.\<close>

definition after_pass :: "duration \<Rightarrow> nat \<Rightarrow> nat \<Rightarrow> rec_pc" where
  "after_pass interval rnd cf =
     (case pass_wait interval rnd cf of None \<Rightarrow> RecPanicked | Some wait \<Rightarrow> RecWaiting wait)"

text \<open>A request is handled while it is in flight. A handler that serves another gRPC method than an xDS
  stream returns without any callback. When the context is done and the timer has fired, the
  select of the reconciler may take either case.\<close>

inductive sys_step ::
    "('any, 'snap) xds_lib \<Rightarrow> ('ctx, 'snap, 'cache) set_snapshot \<Rightarrow> json_decoder \<Rightarrow> grpc_lib \<Rightarrow> Config
      \<Rightarrow> ('snap, 'cache) System \<Rightarrow> ('snap, 'cache) System \<Rightarrow> bool"
  for lib SetSnapshot json grpc cfg where
  s_prog: "prog_step grpc cfg (sysRun s) r \<Longrightarrow> sys_step lib SetSnapshot json grpc cfg s (s\<lparr>sysRun := r\<rparr>)"
| s_env: "env_step grpc cfg (sysRun s) r \<Longrightarrow> runServer r = sys_server s \<Longrightarrow> openStreams r = openStreams (sysRun s) \<Longrightarrow>
    sys_step lib SetSnapshot json grpc cfg s (s\<lparr>sysRun := r\<rparr>)"
| s_request: "0 < inFlight (sysRun s) \<Longrightarrow>
    api_ServeHTTP lib json library rnd t1 now t2 rq later (sysMetrics s) (sys_server s) = (srv, w, tr, ctx') \<Longrightarrow>
    sys_step lib SetSnapshot json grpc cfg s
      ((set_server srv s)\<lparr>sysPhase := note_state srv (sysPhase s), sysSeen := srvRegistry srv # sysSeen s,
         sysMetrics := tr\<rparr>)"
| s_accept: "accepts_stream grpc (grpcPhase (sysRun s)) \<Longrightarrow>
    sys_step lib SetSnapshot json grpc cfg s
      (s\<lparr>sysRun := (sysRun s)\<lparr>openStreams := Suc (openStreams (sysRun s))\<rparr>, pendingStreams := Suc (pendingStreams s)\<rparr>)"
| s_opened: "0 < pendingStreams s \<Longrightarrow> sid \<notin> set (liveStreams s) \<Longrightarrow>
    stream_step (EvOpen now sid) (srvEnvoys (sys_server s), sysMetrics s) = (t, tr) \<Longrightarrow>
    sys_step lib SetSnapshot json grpc cfg s
      ((set_server ((sys_server s)\<lparr>srvEnvoys := t\<rparr>) s)\<lparr>sysMetrics := tr, pendingStreams := pendingStreams s - 1,
         liveStreams := sid # liveStreams s\<rparr>)"
| s_asked: "sid \<in> set (liveStreams s) \<Longrightarrow>
    stream_step (EvRequest sid nid) (srvEnvoys (sys_server s), sysMetrics s) = (t, tr) \<Longrightarrow>
    sys_step lib SetSnapshot json grpc cfg s ((set_server ((sys_server s)\<lparr>srvEnvoys := t\<rparr>) s)\<lparr>sysMetrics := tr\<rparr>)"
| s_closed: "sid \<in> set (liveStreams s) \<Longrightarrow>
    stream_step (EvClose sid) (srvEnvoys (sys_server s), sysMetrics s) = (t, tr) \<Longrightarrow>
    sys_step lib SetSnapshot json grpc cfg s
      ((set_server ((sys_server s)\<lparr>srvEnvoys := t\<rparr>) s)\<lparr>sysMetrics := tr, liveStreams := remove1 sid (liveStreams s),
         closingStreams := Suc (closingStreams s)\<rparr>)"
| s_handled: "0 < closingStreams s \<Longrightarrow>
    sys_step lib SetSnapshot json grpc cfg s
      (s\<lparr>sysRun := (sysRun s)\<lparr>openStreams := openStreams (sysRun s) - 1\<rparr>, closingStreams := closingStreams s - 1\<rparr>)"
| s_other: "0 < pendingStreams s \<Longrightarrow>
    sys_step lib SetSnapshot json grpc cfg s
      (s\<lparr>sysRun := (sysRun s)\<lparr>openStreams := openStreams (sysRun s) - 1\<rparr>, pendingStreams := pendingStreams s - 1\<rparr>)"
| s_begin: "recG s = RecAtPass \<Longrightarrow>
    Reconcile_begin now (srvRegistry (sys_server s), srvReconciler (sys_server s)) = (reg, rc) \<Longrightarrow>
    sys_step lib SetSnapshot json grpc cfg s
      ((set_server ((sys_server s)\<lparr>srvRegistry := reg, srvReconciler := rc\<rparr>) s)
        \<lparr>sysPhase := Passing [reg] [srvRoutes (sys_server s)], sysPasses := Suc (sysPasses s),
         sysSeen := reg # sysSeen s, recG := RecInPass\<rparr>)"
| s_end: "recG s = RecInPass \<Longrightarrow> sysPhase s = Passing rs sts \<Longrightarrow> reads_from rs sts reads \<Longrightarrow>
    Reconcile_end lib SetSnapshot ctx reads (sysCache s, srvReconciler (sys_server s)) = ((cache, rc), err) \<Longrightarrow>
    cf = next_failures err (consecutiveFailures s) \<Longrightarrow>
    sys_step lib SetSnapshot json grpc cfg s
      ((set_server ((sys_server s)\<lparr>srvReconciler := rc\<rparr>) s)
        \<lparr>sysCache := cache, sysPhase := Idle, recG := after_pass (ReconcileInterval cfg) rnd cf,
         consecutiveFailures := cf, passResults := (err \<noteq> None) # passResults s\<rparr>)"
| s_done: "recG s = RecWaiting wait \<Longrightarrow> reconcileCtx_done (sysRun s) \<Longrightarrow>
    sys_step lib SetSnapshot json grpc cfg s (s\<lparr>recG := RecReturned\<rparr>)"
| s_timer: "recG s = RecWaiting wait \<Longrightarrow> sys_step lib SetSnapshot json grpc cfg s (s\<lparr>recG := RecAtPass\<rparr>)"

inductive_cases sys_stepE: "sys_step lib SetSnapshot json grpc cfg s s'"

text \<open>A panic ends the process.\<close>

definition sys_next where
  "sys_next lib SetSnapshot json grpc cfg s s' \<longleftrightarrow> recG s \<noteq> RecPanicked \<and> sys_step lib SetSnapshot json grpc cfg s s'"

definition sys_reachable where
  "sys_reachable lib SetSnapshot json grpc cfg s \<longleftrightarrow>
     (\<exists>cache. (sys_next lib SetSnapshot json grpc cfg)\<^sup>*\<^sup>* (sys_init cfg cache) s)"

section \<open>The invariants\<close>

subsection \<open>Streams and metrics\<close>

text \<open>Every open stream is handled, the tracker holds the live ones, the gauge counts them, and every
  metric call fits its collector.\<close>

definition stream_inv :: "('snap, 'cache) System \<Rightarrow> bool" where
  "stream_inv s \<longleftrightarrow>
     openStreams (sysRun s) = pendingStreams s + length (liveStreams s) + closingStreams s
     \<and> distinct (liveStreams s)
     \<and> (\<forall>sid. go_get (streams (srvEnvoys (sys_server s))) sid \<noteq> None \<longleftrightarrow> sid \<in> set (liveStreams s))
     \<and> onOpen (srvEnvoys (sys_server s)) = onOpen control_plane_tracker
     \<and> onClose (srvEnvoys (sys_server s)) = onClose control_plane_tracker
     \<and> connections_gauge (sysMetrics s) = int (length (liveStreams s))
     \<and> list_all call_fits (sysMetrics s)"

lemma stream_step_hooks:
  "onOpen (fst (stream_step ev tg)) = onOpen (fst tg)" "onClose (fst (stream_step ev tg)) = onClose (fst tg)"
  by (cases ev; cases tg; simp add: StreamOpenFunc_def StreamClosedFunc_def Let_def)+

lemma stream_step_calls:
  assumes "onOpen t = onOpen control_plane_tracker" and "onClose t = onClose control_plane_tracker"
  shows "snd (stream_step ev (t, tr)) = tr @
    (case ev of EvOpen now sid \<Rightarrow> [EnvoyConnectionsTotal_Inc] | EvClose sid \<Rightarrow> [EnvoyConnectionsTotal_Dec]
     | EvRequest sid nid \<Rightarrow> [])"
  using assms by (cases ev) (simp_all add: StreamOpenFunc_def StreamClosedFunc_def Let_def run_hook_def
      control_plane_tracker_def NewConnectionTracker_def)

text \<open>A callback keeps the invariant when the live streams change with it.\<close>

lemma stream_inv_event:
  assumes "stream_inv s" and "stream_step ev (srvEnvoys (sys_server s), sysMetrics s) = (t, tr)"
    and "openStreams (sysRun s) = p + length live + c" and "distinct live"
    and "\<And>sid. one_stream sid ev (go_get (streams (srvEnvoys (sys_server s))) sid) \<noteq> None \<longleftrightarrow> sid \<in> set live"
    and "int (length live) = int (length (liveStreams s)) + (case ev of EvOpen now sid \<Rightarrow> 1 | EvClose sid \<Rightarrow> -1 | EvRequest sid nid \<Rightarrow> 0)"
  shows "stream_inv ((set_server ((sys_server s)\<lparr>srvEnvoys := t\<rparr>) s)\<lparr>sysMetrics := tr, pendingStreams := p,
    liveStreams := live, closingStreams := c\<rparr>)"
proof -
  have hooks: "onOpen t = onOpen control_plane_tracker" "onClose t = onClose control_plane_tracker"
    using assms(1,2) stream_step_hooks [of ev "(srvEnvoys (sys_server s), sysMetrics s)"]
    by (simp_all add: stream_inv_def)
  have get: "go_get (streams t) sid = one_stream sid ev (go_get (streams (srvEnvoys (sys_server s))) sid)" for sid
    using go_get_stream_step [of ev "(srvEnvoys (sys_server s), sysMetrics s)" sid] assms(2) by simp
  have "tr = sysMetrics s @ (case ev of EvOpen now sid \<Rightarrow> [EnvoyConnectionsTotal_Inc]
      | EvClose sid \<Rightarrow> [EnvoyConnectionsTotal_Dec] | EvRequest sid nid \<Rightarrow> [])"
    using stream_step_calls [of "srvEnvoys (sys_server s)" ev "sysMetrics s"] assms(1,2) by (simp add: stream_inv_def)
  then have "connections_gauge tr = int (length live)" "list_all call_fits tr"
    using assms(1,6) by (cases ev; simp add: stream_inv_def connections_gauge_append connections_gauge_def call_fits_eval
        del: call_fits.simps)+
  with assms(3-5) hooks get show ?thesis by (simp add: stream_inv_def)
qed

lemma api_calls:
  "api_ServeHTTP lib json library rnd t1 now t2 rq later tr s = (s', w, tr', ctx) \<Longrightarrow>
   list_all call_fits tr \<Longrightarrow> list_all call_fits tr' \<and> connections_gauge tr' = connections_gauge tr"
  by (auto simp: api_eq connections_gauge_append connections_gauge_def call_fits_eval simp del: call_fits.simps)

text \<open>The program's own steps touch the server through its readiness only.\<close>

lemma prog_step_server:
  "prog_step grpc cfg r r' \<Longrightarrow> runServer r' = runServer r \<or> (\<exists>b. runServer r' = SetReady b (runServer r))"
  unfolding prog_step_def by (elim disjE main_stepE go_stepE) (auto simp: run_return_def)

lemma prog_step_envoys: "prog_step grpc cfg r r' \<Longrightarrow> srvEnvoys (runServer r') = srvEnvoys (runServer r)"
  by (drule prog_step_server) (auto simp: SetReady_def)

lemma prog_step_reconciler: "prog_step grpc cfg r r' \<Longrightarrow> srvReconciler (runServer r') = srvReconciler (runServer r)"
  by (drule prog_step_server) (auto simp: SetReady_def)

lemma stream_inv_init: "stream_inv (sys_init cfg cache)"
  by (simp add: stream_inv_def sys_init_def run_init_def controlplane_New_def control_plane_tracker_def
      NewConnectionTracker_def connections_gauge_def)

lemma stream_inv_step:
  assumes "stream_inv s" and "sys_step lib SetSnapshot json grpc cfg s s'"
  shows "stream_inv s'"
  using assms(2)
proof cases
  case (s_prog r)
  with assms(1) prog_step_env_kept [of grpc cfg "sysRun s" r] prog_step_envoys [of grpc cfg "sysRun s" r] show ?thesis
    by (simp add: stream_inv_def)
next
  case (s_request library rnd t1 now t2 rq later srv w tr ctx')
  have "srvEnvoys srv = srvEnvoys (sys_server s)" using api_server [OF s_request(3)] by simp
  moreover have "list_all call_fits tr \<and> connections_gauge tr = connections_gauge (sysMetrics s)"
    using api_calls [OF s_request(3)] assms(1) by (simp add: stream_inv_def)
  ultimately show ?thesis using assms(1) unfolding s_request(1) by (simp add: stream_inv_def)
next
  case (s_opened sid now t tr)
  have "stream_inv ((set_server ((sys_server s)\<lparr>srvEnvoys := t\<rparr>) s)\<lparr>sysMetrics := tr,
      pendingStreams := pendingStreams s - 1, liveStreams := sid # liveStreams s, closingStreams := closingStreams s\<rparr>)"
    by (rule stream_inv_event [OF assms(1) s_opened(4)]) (use assms(1) s_opened(2,3) in \<open>auto simp: stream_inv_def\<close>)
  then show ?thesis unfolding s_opened(1) by simp
next
  case (s_asked sid nid t tr)
  have "stream_inv ((set_server ((sys_server s)\<lparr>srvEnvoys := t\<rparr>) s)\<lparr>sysMetrics := tr,
      pendingStreams := pendingStreams s, liveStreams := liveStreams s, closingStreams := closingStreams s\<rparr>)"
    by (rule stream_inv_event [OF assms(1) s_asked(3)]) (use assms(1) in \<open>simp_all add: stream_inv_def\<close>)
  then show ?thesis unfolding s_asked(1) by simp
next
  case (s_closed sid t tr)
  have "length (liveStreams s) = Suc (length (remove1 sid (liveStreams s)))"
    using s_closed(2) length_pos_if_in_set [OF s_closed(2)] by (simp add: length_remove1)
  then have "stream_inv ((set_server ((sys_server s)\<lparr>srvEnvoys := t\<rparr>) s)\<lparr>sysMetrics := tr,
      pendingStreams := pendingStreams s, liveStreams := remove1 sid (liveStreams s),
      closingStreams := Suc (closingStreams s)\<rparr>)"
    by (intro stream_inv_event [OF assms(1) s_closed(3)])
      (use assms(1) s_closed(2) in \<open>simp_all add: stream_inv_def\<close>)
  then show ?thesis unfolding s_closed(1) by simp
qed (use assms(1) in \<open>auto simp: stream_inv_def\<close>)

subsection \<open>The reconciler\<close>

text \<open>The failures since the last success, and what the counters say of the passes.\<close>

definition trailing_failures :: "bool list \<Rightarrow> nat" where
  "trailing_failures results = length (takeWhile id results)"

definition pass_inv :: "('snap, 'cache) System \<Rightarrow> bool" where
  "pass_inv s \<longleftrightarrow>
     (case sysPhase s of Idle \<Rightarrow> recG s \<noteq> RecInPass | Passing rs sts \<Rightarrow> recG s = RecInPass \<and> rs \<noteq> [] \<and> sts \<noteq> [])
     \<and> consecutiveFailures s = trailing_failures (passResults s)
     \<and> consecutiveFailures s \<le> 34 \<and> (recG s = RecPanicked \<longleftrightarrow> consecutiveFailures s = 34)
     \<and> length (passResults s) + (if recG s = RecInPass then 1 else 0) = sysPasses s
     \<and> attempts (srvReconciler (sys_server s)) = of_nat (sysPasses s)
     \<and> failures (srvReconciler (sys_server s)) = of_nat (count_list (passResults s) True)
     \<and> (\<exists>tr. recMetrics (srvReconciler (sys_server s)) = Some tr \<and> list_all call_fits tr)"

lemma after_pass_panics: "cf \<le> 34 \<Longrightarrow> after_pass interval rnd cf = RecPanicked \<longleftrightarrow> cf = 34"
  using pass_wait_total [of cf interval rnd]
  by (cases "cf = 34") (auto simp: after_pass_def pass_wait_34 split: option.splits)

lemma after_pass_place: "after_pass interval rnd cf \<noteq> RecInPass" "after_pass interval rnd cf \<noteq> RecAtPass"
  by (simp_all add: after_pass_def split: option.split)

lemma Reconcile_begin_counters:
  assumes "Reconcile_begin now (reg, rc) = (reg', rc')" and "recMetrics rc = Some tr" and "list_all call_fits tr"
  shows "attempts rc' = attempts rc + 1 \<and> failures rc' = failures rc
    \<and> (\<exists>tr'. recMetrics rc' = Some tr' \<and> list_all call_fits tr')"
  using assms by (auto simp: Reconcile_begin_def Let_def call_fits_eval simp del: call_fits.simps split: prod.splits if_splits)

lemma Reconcile_end_counters:
  assumes "Reconcile_end lib SetSnapshot ctx reads (cache, rc) = ((cache', rc'), err)"
    and "recMetrics rc = Some tr" and "list_all call_fits tr"
  shows "attempts rc' = attempts rc \<and> failures rc' = failures rc + (if err = None then 0 else 1)
    \<and> (\<exists>tr'. recMetrics rc' = Some tr' \<and> list_all call_fits tr')"
  using assms by (auto simp: Reconcile_end_def reconcile_defs Let_def call_fits_eval simp del: call_fits.simps
      split: sum.splits prod.splits option.splits)

lemma pass_inv_init: "pass_inv (sys_init cfg cache)"
  by (simp add: pass_inv_def sys_init_def run_init_def controlplane_New_def reconciler_New_def trailing_failures_def)

lemma pass_inv_step:
  assumes "pass_inv s" and "sys_step lib SetSnapshot json grpc cfg s s'" and "recG s \<noteq> RecPanicked"
  shows "pass_inv s'"
  using assms(2)
proof cases
  case (s_prog r)
  with assms(1) prog_step_reconciler [of grpc cfg "sysRun s" r] show ?thesis by (simp add: pass_inv_def split: phase.splits)
next
  case (s_request library rnd t1 now t2 rq later srv w tr ctx')
  have "srvReconciler srv = srvReconciler (sys_server s)" using api_server [OF s_request(3)] by simp
  with assms(1) s_request show ?thesis by (auto simp: pass_inv_def note_state_def split: phase.splits)
next
  case (s_begin now reg rc)
  obtain tr where "recMetrics (srvReconciler (sys_server s)) = Some tr" "list_all call_fits tr"
    using assms(1) by (auto simp: pass_inv_def)
  from Reconcile_begin_counters [OF s_begin(3) this] assms(1) s_begin(1,2) show ?thesis
    by (auto simp: pass_inv_def split: phase.splits)
next
  case (s_end rs sts reads ctx cache rc err cf rnd)
  obtain tr where "recMetrics (srvReconciler (sys_server s)) = Some tr" "list_all call_fits tr"
    using assms(1) by (auto simp: pass_inv_def)
  note counters = Reconcile_end_counters [OF s_end(5) this]
  have "cf \<le> 34" "cf = trailing_failures ((err \<noteq> None) # passResults s)"
    using assms(1,3) s_end(6) by (auto simp: pass_inv_def next_failures_def trailing_failures_def)
  with counters assms(1) s_end(1,2) after_pass_panics [of cf] after_pass_place show ?thesis
    by (auto simp: pass_inv_def)
qed (use assms(1) in \<open>auto simp: pass_inv_def split: phase.splits\<close>)

definition sys_inv :: "('snap, 'cache) System \<Rightarrow> bool" where
  "sys_inv s \<longleftrightarrow> stream_inv s \<and> pass_inv s"

lemma sys_inv_init: "sys_inv (sys_init cfg cache)"
  by (simp add: sys_inv_def stream_inv_init pass_inv_init)

lemma sys_inv_step:
  "sys_inv s \<Longrightarrow> sys_step lib SetSnapshot json grpc cfg s s' \<Longrightarrow> recG s \<noteq> RecPanicked \<Longrightarrow> sys_inv s'"
  using stream_inv_step pass_inv_step unfolding sys_inv_def by blast

section \<open>The two views\<close>

definition cp_view :: "('snap, 'cache) System \<Rightarrow> ('snap, 'cache) ControlPlane" where
  "cp_view s =
     \<lparr>server = sys_server s, snapshotCache = sysCache s, cpPhase = sysPhase s, begunPasses = sysPasses s,
      seen = sysSeen s\<rparr>"

lemma cp_view_sel [simp]:
  "server (cp_view s) = sys_server s" "snapshotCache (cp_view s) = sysCache s" "cpPhase (cp_view s) = sysPhase s"
  "begunPasses (cp_view s) = sysPasses s" "seen (cp_view s) = sysSeen s"
  by (simp_all add: cp_view_def)

lemma cp_view_init: "cp_view (sys_init cfg cache) = controlplane_New cfg cache"
  by (simp add: cp_view_def sys_init_def run_init_def controlplane_New_def)

lemma cp_view_prog:
  assumes "prog_step grpc cfg (sysRun s) r"
  shows "cp_step lib SetSnapshot json (cp_view s) (cp_view (s\<lparr>sysRun := r\<rparr>)) \<or> cp_view (s\<lparr>sysRun := r\<rparr>) = cp_view s"
proof (cases "runServer r = sys_server s")
  case True
  then show ?thesis by (simp add: cp_view_def)
next
  case False
  then obtain b where "runServer r = SetReady b (sys_server s)"
    using prog_step_server [OF assms] by auto
  then have "cp_view (s\<lparr>sysRun := r\<rparr>) = (cp_view s)\<lparr>server := SetReady b (server (cp_view s))\<rparr>"
    by (simp add: cp_view_def)
  then show ?thesis using cp_ready by metis
qed

lemma cp_view_stream:
  "stream_step ev (srvEnvoys (sys_server s), tr) = (t, tr') \<Longrightarrow>
   cp_step lib SetSnapshot json (cp_view s) ((cp_view s)\<lparr>server := (sys_server s)\<lparr>srvEnvoys := t\<rparr>\<rparr>)"
  using cp_stream [of ev "cp_view s" tr t tr' lib SetSnapshot json] by simp

lemma cp_view_step:
  assumes "sys_inv s" and "sys_step lib SetSnapshot json grpc cfg s s'"
  shows "cp_step lib SetSnapshot json (cp_view s) (cp_view s') \<or> cp_view s' = cp_view s"
  using assms(2)
proof cases
  case (s_prog r)
  then show ?thesis using cp_view_prog by blast
next
  case (s_request library rnd t1 now t2 rq later srv w tr ctx')
  have "cp_view s' = (cp_view s)\<lparr>server := srv, cpPhase := note_state srv (cpPhase (cp_view s)),
      seen := srvRegistry srv # seen (cp_view s)\<rparr>"
    unfolding s_request(1) by (simp add: cp_view_def)
  moreover have "api_ServeHTTP lib json library rnd t1 now t2 rq later (sysMetrics s) (server (cp_view s)) = (srv, w, tr, ctx')"
    using s_request(3) by simp
  ultimately show ?thesis using cp_request by metis
next
  case (s_opened sid now t tr)
  with cp_view_stream [OF s_opened(4), of lib SetSnapshot json] show ?thesis by (simp add: cp_view_def)
next
  case (s_asked sid nid t tr)
  with cp_view_stream [OF s_asked(3), of lib SetSnapshot json] show ?thesis by (simp add: cp_view_def)
next
  case (s_closed sid t tr)
  with cp_view_stream [OF s_closed(3), of lib SetSnapshot json] show ?thesis by (simp add: cp_view_def)
next
  case (s_begin now reg rc)
  have "cpPhase (cp_view s) = Idle" using assms(1) s_begin(2) by (simp add: sys_inv_def pass_inv_def split: phase.splits)
  moreover have "Reconcile_begin now (srvRegistry (server (cp_view s)), srvReconciler (server (cp_view s))) = (reg, rc)"
    using s_begin(3) by simp
  moreover have "cp_view s' = (cp_view s)\<lparr>server := (server (cp_view s))\<lparr>srvRegistry := reg, srvReconciler := rc\<rparr>,
      cpPhase := Passing [reg] [srvRoutes (server (cp_view s))], begunPasses := Suc (begunPasses (cp_view s)),
      seen := reg # seen (cp_view s)\<rparr>"
    unfolding s_begin(1) by (simp add: cp_view_def)
  ultimately show ?thesis using cp_begin by metis
next
  case (s_end rs sts reads ctx cache rc err cf rnd)
  have "cp_view s' = (cp_view s)\<lparr>server := (server (cp_view s))\<lparr>srvReconciler := rc\<rparr>, snapshotCache := cache, cpPhase := Idle\<rparr>"
    unfolding s_end(1) by (simp add: cp_view_def)
  moreover have "cpPhase (cp_view s) = Passing rs sts"
    "Reconcile_end lib SetSnapshot ctx reads (snapshotCache (cp_view s), srvReconciler (server (cp_view s))) = ((cache, rc), err)"
    using s_end(3,5) by simp_all
  ultimately show ?thesis using cp_end s_end(4) by metis
qed (simp_all add: cp_view_def)

lemma run_view_init: "sysRun (sys_init cfg cache) = run_init (controlplane_New cfg ())"
  by (simp add: sys_init_def)

lemma run_view_serve:
  "srvReady srv = srvReady (sys_server s) \<Longrightarrow> env_step grpc cfg (sysRun s) ((sysRun s)\<lparr>runServer := srv\<rparr>)"
  by (rule e_serve)

lemma run_view_step:
  assumes "sys_step lib SetSnapshot json grpc cfg s s'"
  shows "(prog_step grpc cfg (sysRun s) (sysRun s') \<or> env_step grpc cfg (sysRun s) (sysRun s')) \<or> sysRun s' = sysRun s"
  using assms
proof cases
  case (s_request library rnd t1 now t2 rq later srv w tr ctx')
  have "srvReady srv = srvReady (sys_server s)" using api_server [OF s_request(3)] by simp
  with run_view_serve [of srv s grpc cfg] show ?thesis unfolding s_request(1) by simp
next
  case s_handled
  then show ?thesis using e_close [of grpc cfg "sysRun s"] by simp
next
  case s_other
  then show ?thesis using e_close [of grpc cfg "sysRun s"] by simp
qed (auto intro: run_view_serve e_open)

interpretation data_view: step_simulation sys_inv cp_view "sys_next lib SetSnapshot json grpc cfg"
    "cp_step lib SetSnapshot json"
  for lib SetSnapshot json grpc cfg
  by unfold_locales (auto simp: sys_next_def intro: sys_inv_step dest: cp_view_step)

interpretation process_view: step_simulation sys_inv sysRun "sys_next lib SetSnapshot json grpc cfg"
    "\<lambda>r r'. prog_step grpc cfg r r' \<or> env_step grpc cfg r r'"
  for lib SetSnapshot json grpc cfg
  by unfold_locales (auto simp: sys_next_def intro: sys_inv_step dest: run_view_step)

lemma cp_reachable_steps:
  "(cp_step lib SetSnapshot json)\<^sup>*\<^sup>* c c' \<Longrightarrow> cp_reachable lib SetSnapshot json c \<Longrightarrow> cp_reachable lib SetSnapshot json c'"
  by (induction rule: rtranclp_induct) (auto intro: cr_step)

lemma run_reachable_steps:
  "(\<lambda>r r'. prog_step grpc cfg r r' \<or> env_step grpc cfg r r')\<^sup>*\<^sup>* r r' \<Longrightarrow> run_reachable grpc cfg r \<Longrightarrow>
   run_reachable grpc cfg r'"
  by (induction rule: rtranclp_induct) (auto intro: run_prog run_env)

lemma sys_reachable_step:
  "sys_reachable lib SetSnapshot json grpc cfg s \<Longrightarrow> sys_step lib SetSnapshot json grpc cfg s s' \<Longrightarrow>
   recG s \<noteq> RecPanicked \<Longrightarrow> sys_reachable lib SetSnapshot json grpc cfg s'"
  unfolding sys_reachable_def sys_next_def by (blast intro: rtranclp.rtrancl_into_rtrancl)

lemma sys_reachable_inv:
  assumes "sys_reachable lib SetSnapshot json grpc cfg s"
  shows "sys_inv s"
proof -
  obtain cache where steps: "(sys_next lib SetSnapshot json grpc cfg)\<^sup>*\<^sup>* (sys_init cfg cache) s"
    using assms by (auto simp: sys_reachable_def)
  show ?thesis by (rule data_view.inv_steps [OF steps sys_inv_init])
qed

lemma sys_reachable_views:
  assumes "sys_reachable lib SetSnapshot json grpc cfg s"
  shows "cp_reachable lib SetSnapshot json (cp_view s)" and "run_reachable grpc cfg (sysRun s)"
proof -
  obtain cache where steps: "(sys_next lib SetSnapshot json grpc cfg)\<^sup>*\<^sup>* (sys_init cfg cache) s"
    using assms by (auto simp: sys_reachable_def)
  have "(cp_step lib SetSnapshot json)\<^sup>*\<^sup>* (controlplane_New cfg cache) (cp_view s)"
    using data_view.view_steps [OF steps sys_inv_init] unfolding cp_view_init .
  then show "cp_reachable lib SetSnapshot json (cp_view s)" by (rule cp_reachable_steps) (rule cr_init)
  have "(\<lambda>r r'. prog_step grpc cfg r r' \<or> env_step grpc cfg r r')\<^sup>*\<^sup>* (run_init (controlplane_New cfg ())) (sysRun s)"
    using process_view.view_steps [OF steps sys_inv_init] unfolding run_view_init .
  then show "run_reachable grpc cfg (sysRun s)" by (rule run_reachable_steps) (rule run_start)
qed

section \<open>Progress of the reconciler\<close>

text \<open>A pass under way can always end: the state at its sweep is one that its reads may meet.\<close>

lemma reads_from_exist: "rs \<noteq> [] \<Longrightarrow> sts \<noteq> [] \<Longrightarrow> \<exists>reads. reads_from rs sts reads"
  by (intro exI [of _ "(quiet_reads 0 0 (hd rs) (Some (\<lambda>_. hd sts)))\<lparr>listRegistry := hd rs,
      splitReads := still (hd rs) 0, servicesRegistry := hd rs, countRegistry := hd rs, countReads := (\<lambda>_. hd rs)\<rparr>"])
    (auto simp: reads_from_def still_def)

lemma reconciler_progress:
  assumes "sys_inv s" and "recG s \<noteq> RecReturned" and "recG s \<noteq> RecPanicked"
  shows "\<exists>s'. sys_step lib SetSnapshot json grpc cfg s s' \<and> recG s' \<noteq> recG s"
proof (cases "recG s")
  case RecAtPass
  obtain reg rc where b: "Reconcile_begin 0 (srvRegistry (sys_server s), srvReconciler (sys_server s)) = (reg, rc)"
    by fastforce
  show ?thesis using s_begin [OF RecAtPass b, of lib SetSnapshot json grpc cfg] RecAtPass by (intro exI conjI) auto
next
  case RecInPass
  obtain rs sts where ph: "sysPhase s = Passing rs sts" "rs \<noteq> []" "sts \<noteq> []"
    using assms(1) RecInPass by (auto simp: sys_inv_def pass_inv_def split: phase.splits)
  then obtain reads where "reads_from rs sts reads" using reads_from_exist by blast
  moreover obtain cache rc err where
    "Reconcile_end lib SetSnapshot undefined reads (sysCache s, srvReconciler (sys_server s)) = ((cache, rc), err)"
    by (metis prod.exhaust)
  ultimately show ?thesis
    using s_end [OF RecInPass ph(1), of reads lib SetSnapshot undefined cache rc err _ json grpc cfg 0]
      after_pass_place RecInPass by (intro exI conjI) auto
next
  case (RecWaiting wait)
  show ?thesis using s_timer [OF RecWaiting, of lib SetSnapshot json grpc cfg] RecWaiting by (intro exI conjI) auto
qed (use assms(2,3) in simp_all)

section \<open>Properties\<close>

text \<open>C4. The process crashes exactly when the last 34 passes have failed, however the passes interleave
  with requests, callbacks and the lifecycle: the loop's count of failures is the number of
  passes that failed since the last success, it never exceeds 34, and the reconciler has
  panicked if and only if it is 34. Meanwhile \<open>Attempts\<close> is the number of passes begun and
  \<open>Failures\<close> the number of those that failed, both modulo \<open>2\<^sup>6\<^sup>4\<close>.\<close>

theorem crash_after_34_failures:
  assumes "sys_reachable lib SetSnapshot json grpc cfg s"
  shows "(recG s = RecPanicked \<longleftrightarrow> 34 \<le> length (takeWhile id (passResults s)))
    \<and> consecutiveFailures s = length (takeWhile id (passResults s)) \<and> consecutiveFailures s \<le> 34
    \<and> length (passResults s) + (if recG s = RecInPass then 1 else 0) = sysPasses s
    \<and> Attempts (srvReconciler (sys_server s)) = of_nat (sysPasses s)
    \<and> Failures (srvReconciler (sys_server s)) = of_nat (count_list (passResults s) True)"
  using sys_reachable_inv [OF assms]
  by (auto simp: sys_inv_def pass_inv_def trailing_failures_def Attempts_def Failures_def)

text \<open>A run of failing passes, as steps of the system.\<close>

lemma failing_pass:
  assumes "sys_reachable lib SetSnapshot json grpc cfg s" and "recG s = RecAtPass"
    and "\<And>snap cache. \<exists>cache' e. SetSnapshot ctx NodeID snap cache = (cache', Some e)"
  shows "\<exists>s'. sys_reachable lib SetSnapshot json grpc cfg s' \<and> passResults s' = True # passResults s
    \<and> (recG s' = RecAtPass \<or> recG s' = RecPanicked)"
proof -
  obtain reg rc where b: "Reconcile_begin 0 (srvRegistry (sys_server s), srvReconciler (sys_server s)) = (reg, rc)"
    by fastforce
  obtain s1 where s1: "sys_step lib SetSnapshot json grpc cfg s s1" "recG s1 = RecInPass" "passResults s1 = passResults s"
      "sysPhase s1 = Passing [reg] [srvRoutes (sys_server s)]"
    using s_begin [OF assms(2) b, of lib SetSnapshot json grpc cfg] by (rule that) simp_all
  have r1: "sys_reachable lib SetSnapshot json grpc cfg s1" by (rule sys_reachable_step [OF assms(1) s1(1)]) (simp add: assms(2))
  obtain reads where reads: "reads_from [reg] [srvRoutes (sys_server s)] reads"
    using reads_from_exist [of "[reg]" "[srvRoutes (sys_server s)]"] by auto
  obtain cache rc' err where e: "Reconcile_end lib SetSnapshot ctx reads (sysCache s1, srvReconciler (sys_server s1)) = ((cache, rc'), err)"
    by (metis prod.exhaust)
  have err: "err \<noteq> None"
  proof (cases "BuildSnapshot lib (listRegistry reads) (routeReads reads) (splitReads reads)
      (version_string (version (srvReconciler (sys_server s1))))")
    case (Inr snap)
    obtain cache' x where "SetSnapshot ctx NodeID snap (sysCache s1) = (cache', Some x)" using assms(3) by blast
    with e Inr show ?thesis by (auto simp: Reconcile_end_def)
  qed (use e in \<open>auto simp: Reconcile_end_def\<close>)
  obtain s2 where s2: "sys_step lib SetSnapshot json grpc cfg s1 s2" "passResults s2 = True # passResults s"
      "recG s2 = after_pass (ReconcileInterval cfg) 0 (next_failures err (consecutiveFailures s1))"
    using s_end [OF s1(2,4) reads e refl, of json grpc cfg 0] by (rule that) (simp_all add: err s1(3))
  have r2: "sys_reachable lib SetSnapshot json grpc cfg s2" by (rule sys_reachable_step [OF r1 s2(1)]) (simp add: s1(2))
  show ?thesis
  proof (cases "recG s2")
    case (RecWaiting wait)
    then have "sys_reachable lib SetSnapshot json grpc cfg (s2\<lparr>recG := RecAtPass\<rparr>)"
      by (intro sys_reachable_step [OF r2 s_timer [OF RecWaiting]]) simp
    with s2(2) show ?thesis by (intro exI [of _ "s2\<lparr>recG := RecAtPass\<rparr>"]) simp
  next
    case RecPanicked
    with s2(2) r2 show ?thesis by blast
  qed (use s2(3) in \<open>simp_all add: after_pass_def split: option.splits\<close>)
qed

lemma failing_passes:
  assumes "\<And>snap cache. \<exists>cache' e. SetSnapshot ctx NodeID snap cache = (cache', Some e)" and "n \<le> 34"
  shows "\<exists>s. sys_reachable lib SetSnapshot json grpc cfg (s :: ('snap, 'cache) System) \<and> passResults s = replicate n True
    \<and> (n < 34 \<longrightarrow> recG s = RecAtPass)"
  using assms(2)
proof (induction n)
  case 0
  show ?case by (intro exI [of _ "sys_init cfg undefined"]) (auto simp: sys_reachable_def sys_init_def)
next
  case (Suc n)
  then obtain s where "sys_reachable lib SetSnapshot json grpc cfg (s :: ('snap, 'cache) System)"
    "passResults s = replicate n True" "recG s = RecAtPass" by auto
  with failing_pass [OF this(1,3) assms(1)] obtain s' where
    s': "sys_reachable lib SetSnapshot json grpc cfg (s' :: ('snap, 'cache) System)" "passResults s' = replicate (Suc n) True"
      "recG s' = RecAtPass \<or> recG s' = RecPanicked" by auto
  have "takeWhile id (replicate (Suc n) True) = replicate (Suc n) True" by (simp add: takeWhile_eq_all_conv)
  then have "recG s' = RecPanicked \<Longrightarrow> Suc n = 34"
    using sys_reachable_inv [OF s'(1)] by (simp add: sys_inv_def pass_inv_def trailing_failures_def s'(2))
  with s' show ?case by auto
qed

theorem crash_after_34_failures_witness:
  "\<exists>s. sys_reachable ref_lib rejecting_SetSnapshot sample_json ref_grpc Default (s :: (ref_snap, _) System)
     \<and> recG s = RecPanicked \<and> passResults s = replicate 34 True"
proof -
  obtain s :: "(ref_snap, _) System" where s: "sys_reachable ref_lib rejecting_SetSnapshot sample_json ref_grpc Default s"
    "passResults s = replicate 34 True"
    using failing_passes [of rejecting_SetSnapshot "()" 34 ref_lib sample_json ref_grpc Default]
    by (auto simp: rejecting_SetSnapshot_def)
  with crash_after_34_failures [OF s(1)] show ?thesis by (auto simp: takeWhile_eq_all_conv)
qed




text \<open>Once \<open>Run\<close> has returned nil, the only goroutine that can still change the data is the reconciler,
  and what it does to the registry is a sweep.\<close>

lemma quiet_after_return:
  assumes "sys_reachable lib SetSnapshot json grpc cfg s" and "grpc_contract grpc"
    and "mainG (sysRun s) = RunReturned None" and "sys_step lib SetSnapshot json grpc cfg s s'"
  shows "srvRoutes (sys_server s') = srvRoutes (sys_server s) \<and> srvEnvoys (sys_server s') = srvEnvoys (sys_server s)
    \<and> (srvRegistry (sys_server s') = srvRegistry (sys_server s)
       \<or> recG s = RecAtPass \<and> (\<exists>now. srvRegistry (sys_server s') =
           fst (SweepStale now (recStaleAfter (srvReconciler (sys_server s))) (srvRegistry (sys_server s)))))"
proof -
  have "run_inv (sysRun s)" using run_inv_reachable [OF assms(2) sys_reachable_views(2) [OF assms(1)]] .
  then have "inFlight (sysRun s) = 0" "openStreams (sysRun s) = 0"
    using assms(3) by (auto simp: run_inv_def main_inv_def)
  moreover from this have "pendingStreams s = 0" "liveStreams s = []"
    using sys_reachable_inv [OF assms(1)] by (simp_all add: sys_inv_def stream_inv_def)
  ultimately have idle: "\<not> 0 < inFlight (sysRun s)" "\<not> 0 < pendingStreams s" "sid \<notin> set (liveStreams s)" for sid
    by simp_all
  from assms(4) show ?thesis
  proof cases
    case (s_prog r)
    then show ?thesis using prog_step_server [of grpc cfg "sysRun s" r] by (auto simp: SetReady_def)
  next
    case (s_begin now reg rc)
    have "reg = fst (SweepStale now (recStaleAfter (srvReconciler (sys_server s))) (srvRegistry (sys_server s)))"
      using s_begin(3) by (auto simp: Reconcile_begin_def Let_def split: prod.splits)
    with s_begin(1,2) show ?thesis by auto
  qed (use idle in simp_all)
qed

text \<open>With no stream open, no callback is outstanding and the tracker is empty.\<close>

lemma tracker_empty:
  assumes "stream_inv s" and "openStreams (sysRun s) = 0"
  shows "Connected (srvEnvoys (sys_server s)) = [] \<and> Count (srvEnvoys (sys_server s)) = 0"
proof -
  have "go_get (streams (srvEnvoys (sys_server s))) sid = None" for sid
    using assms unfolding stream_inv_def by (metis add_is_0 length_0_conv empty_iff empty_set)
  then have "streams (srvEnvoys (sys_server s)) = []" unfolding go_get_None_iff by (metis image_eqI list.set_intros(1) neq_Nil_conv)
  then show ?thesis by (simp add: Connected_def Count_def)
qed

text \<open>C5. What the result of \<open>Run\<close> means for the whole process, in every interleaving: nil is returned only
  after the signal and a complete shutdown, with both servers ended, no request in flight,
  no xDS stream open and no Envoy left in the tracker, and from then on the routes and the
  tracker stay as they are and the registry changes only by a sweep of the reconciler; a
  failed shutdown is reported only after the xDS server has stopped, with the tracker empty
  too; the exit of a server is reported only when that server ended by itself. In each case
  the reconciliation loop has been told to stop.\<close>

theorem system_shutdown:
  assumes "grpc_contract grpc" and "sys_reachable lib SetSnapshot json grpc cfg s"
    and "mainG (sysRun s) = RunReturned res"
  shows "reconcileCtx_done (sysRun s)
    \<and> (case res of
         None \<Rightarrow> ctxDone (sysRun s) \<and> httpG (sysRun s) = HttpDone \<and> xdsG (sysRun s) = XdsDone
           \<and> inFlight (sysRun s) = 0 \<and> openStreams (sysRun s) = 0
           \<and> Connected (srvEnvoys (sys_server s)) = [] \<and> Count (srvEnvoys (sys_server s)) = 0
           \<and> (\<forall>s'. sys_step lib SetSnapshot json grpc cfg s s' \<longrightarrow>
                srvRoutes (sys_server s') = srvRoutes (sys_server s)
              \<and> srvEnvoys (sys_server s') = srvEnvoys (sys_server s)
              \<and> (srvRegistry (sys_server s') = srvRegistry (sys_server s)
                 \<or> recG s = RecAtPass \<and> (\<exists>now. srvRegistry (sys_server s') =
                     fst (SweepStale now (recStaleAfter (srvReconciler (sys_server s))) (srvRegistry (sys_server s))))))
       | Some (ErrShutdown e) \<Rightarrow> ctxDone (sysRun s) \<and> Connected (srvEnvoys (sys_server s)) = []
       | Some (ErrHttpExited e) \<Rightarrow> httpG (sysRun s) = HttpDone \<and> \<not> shuttingDown (sysRun s)
       | Some (ErrXdsExited e) \<Rightarrow> xdsG (sysRun s) = XdsDone \<and> \<not> shuttingDown (sysRun s))"
proof -
  have run: "run_inv (sysRun s)" using run_inv_reachable [OF assms(1) sys_reachable_views(2) [OF assms(2)]] .
  have "stream_inv s" using sys_reachable_inv [OF assms(2)] by (simp add: sys_inv_def)
  note empty = tracker_empty [OF this]
  show ?thesis
  proof (cases res)
    case None
    with run assms(3) empty quiet_after_return [OF assms(2,1)] show ?thesis
      by (simp add: run_inv_def main_inv_def reconcileCtx_done_def)
  next
    case (Some err)
    with run assms(3) empty show ?thesis
      by (cases err) (simp_all add: run_inv_def main_inv_def reconcileCtx_done_def)
  qed
qed

text \<open>Runs of the lifecycle are runs of the system.\<close>

lemma prog_steps_lift:
  assumes "recG s \<noteq> RecPanicked"
  shows "(prog_step grpc cfg ^^ n) (sysRun s) r \<Longrightarrow>
    (sys_next lib SetSnapshot json grpc cfg)\<^sup>*\<^sup>* s (s\<lparr>sysRun := r\<rparr>)"
proof (induction n arbitrary: r)
  case (Suc n)
  then obtain q where q: "(prog_step grpc cfg ^^ n) (sysRun s) q" "prog_step grpc cfg q r" by auto
  have "sys_step lib SetSnapshot json grpc cfg (s\<lparr>sysRun := q\<rparr>) (s\<lparr>sysRun := q\<rparr>\<lparr>sysRun := r\<rparr>)"
    by (rule s_prog) (simp add: q(2))
  then have "sys_next lib SetSnapshot json grpc cfg (s\<lparr>sysRun := q\<rparr>) (s\<lparr>sysRun := r\<rparr>)"
    using assms by (simp add: sys_next_def)
  with Suc.IH [OF q(1)] show ?case by (rule rtranclp.rtrancl_into_rtrancl)
qed simp

lemma signalled_system:
  "sys_next lib SetSnapshot json grpc Default (sys_init Default cache) ((sys_init Default cache)\<lparr>sysRun := signalled\<rparr>)"
proof -
  let ?s = "sys_init Default cache :: (ref_snap, _) System"
  have run: "sysRun ?s = run_init (controlplane_New Default ())" by (simp add: sys_init_def)
  have "env_step grpc Default (sysRun ?s) signalled" unfolding run signalled_def by (rule e_cancel)
  moreover have "runServer signalled = sys_server ?s" "openStreams signalled = openStreams (sysRun ?s)"
    by (simp_all add: signalled_def run)
  ultimately show ?thesis by (simp add: sys_next_def s_env) (simp add: sys_init_def)
qed

theorem system_shutdown_witness:
  "\<exists>s. sys_reachable ref_lib ref_SetSnapshot sample_json ref_grpc Default (s :: (ref_snap, _) System)
     \<and> mainG (sysRun s) = RunReturned None \<and> inFlight (sysRun s) = 0 \<and> Connected (srvEnvoys (sys_server s)) = []"
proof -
  let ?s = "(sys_init Default [])\<lparr>sysRun := signalled\<rparr> :: (ref_snap, (string, ref_snap) gomap) System"
  obtain r where r: "(prog_step ref_grpc Default ^^ 14) signalled r" "mainG r = RunReturned None"
    using sample_shutdown by blast
  have "recG ?s \<noteq> RecPanicked" by (simp add: sys_init_def)
  with r(1) have "(sys_next ref_lib ref_SetSnapshot sample_json ref_grpc Default)\<^sup>*\<^sup>* ?s (?s\<lparr>sysRun := r\<rparr>)"
    by (intro prog_steps_lift) simp_all
  with signalled_system
  have "(sys_next ref_lib ref_SetSnapshot sample_json ref_grpc Default)\<^sup>*\<^sup>* (sys_init Default []) (?s\<lparr>sysRun := r\<rparr>)"
    by (rule converse_rtranclp_into_rtranclp)
  then have reach: "sys_reachable ref_lib ref_SetSnapshot sample_json ref_grpc Default (?s\<lparr>sysRun := r\<rparr>)"
    unfolding sys_reachable_def by (rule exI)
  have "mainG (sysRun (?s\<lparr>sysRun := r\<rparr>)) = RunReturned None" by (simp add: r(2))
  with system_shutdown [OF ref_grpc_contract reach this] reach show ?thesis by auto
qed

end
