(* ===== verification/Mesh_Demo.thy ===== *)
theory Mesh_Demo
  imports Mesh_Prelude
begin

text \<open>
  The demonstration backend, \<open>cmd/demo-service/main.go\<close>: its flags with their defaults from the
  environment, and its two handlers. The JSON text of the answer is the list of its fields.
\<close>

definition envOr :: "(string \<Rightarrow> string) \<Rightarrow> string \<Rightarrow> string \<Rightarrow> string" where
  "envOr getenv k fallback = (if getenv k \<noteq> [] then getenv k else fallback)"

record demo_flags =
  fAddr :: string
  fName :: string
  fVersion :: string

text \<open>The flags given on the command line, over the defaults.\<close>

definition demo_parse :: "(string \<Rightarrow> string) \<Rightarrow> (string \<rightharpoonup> string) \<Rightarrow> demo_flags" where
  "demo_parse getenv args =
     (let flag = (\<lambda>n d. case args n of None \<Rightarrow> d | Some v \<Rightarrow> v)
      in \<lparr>fAddr = flag ''addr'' '':9000'',
          fName = flag ''name'' (envOr getenv ''DEMO_SERVICE_NAME'' ''demo-service''),
          fVersion = flag ''version'' (envOr getenv ''DEMO_SERVICE_VERSION'' [])\<rparr>)"

text \<open>A response: status, content type and fields; \<open>None\<close> where the mux answers by itself.\<close>

definition demo_ServeHTTP ::
    "demo_flags \<Rightarrow> string \<Rightarrow> string \<Rightarrow> (int \<times> string option \<times> (string \<times> string) list) option" where
  "demo_ServeHTTP f method path =
     (if method \<noteq> ''GET'' \<and> method \<noteq> ''HEAD'' then None
      else if path = ''/healthz'' then Some (200, None, [])
      else if path = ''/echo'' then
        Some (200, Some ''application/json'', [(''service'', fName f), (''version'', fVersion f)])
      else None)"

text \<open>The name and version that an instance echoes are the flag's, else the environment's, else the
  built-in ones; a set but empty variable counts as unset.\<close>

lemma demo_echo:
  "demo_ServeHTTP (demo_parse getenv args) ''GET'' ''/echo'' =
     Some (200, Some ''application/json'',
       [(''service'', case args ''name'' of Some n \<Rightarrow> n
           | None \<Rightarrow> if getenv ''DEMO_SERVICE_NAME'' = [] then ''demo-service'' else getenv ''DEMO_SERVICE_NAME''),
        (''version'', case args ''version'' of Some v \<Rightarrow> v | None \<Rightarrow> getenv ''DEMO_SERVICE_VERSION'')])"
  by (simp add: demo_ServeHTTP_def demo_parse_def envOr_def split: option.split)

end
